theory Spec2Isabelle
  imports Main "HOL-Library.FSet" "HOL-Library.AList"
begin

section \<open>Messages\<close>

text \<open>
  The embedding follows \<^verbatim>\<open>src/paxos.py\<close>. \<^verbatim>\<open>MessageType\<close> is the enum of the four protocol
  messages and \<^verbatim>\<open>Message\<close> the dataclass. Python's \<^verbatim>\<open>Optional[Any]\<close> payloads are
  \<open>'v option\<close>, where \<open>None\<close> is Python's \<^verbatim>\<open>None\<close> and \<open>'v\<close> is any type of hashable values
  compared by equality; \<^verbatim>\<open>Optional[int]\<close> is \<open>int option\<close>; Python's unbounded \<^verbatim>\<open>int\<close> is
  \<open>int\<close>.
\<close>

datatype MessageType = PREPARE | PROMISE | ACCEPT | ACCEPTED

record 'v Message =
  msg_type :: MessageType
  proposal_id :: int
  sender_id :: string
  receiver_id :: string
  "value" :: "'v option"
  accepted_proposal_id :: "int option"
  accepted_value :: "'v option"

text \<open>The positional constructor \<^verbatim>\<open>Message(...)\<close> of the dataclass.\<close>

definition mk_Message ::
  "MessageType \<Rightarrow> int \<Rightarrow> string \<Rightarrow> string \<Rightarrow> 'v option \<Rightarrow> int option \<Rightarrow> 'v option \<Rightarrow> 'v Message"
where
  "mk_Message t pid sndr rcvr v apid av =
     \<lparr>msg_type = t, proposal_id = pid, sender_id = sndr, receiver_id = rcvr,
      value = v, accepted_proposal_id = apid, accepted_value = av\<rparr>"

section \<open>Node state\<close>

text \<open>
  \<^verbatim>\<open>PaxosNode\<close> holds the proposer, acceptor and learner fields of \<^verbatim>\<open>__init__\<close>. The set
  \<^verbatim>\<open>promises_received\<close> and the sets inside \<^verbatim>\<open>accept_counts\<close> are finite sets of node ids;
  the dictionaries \<^verbatim>\<open>learned_values\<close> and \<^verbatim>\<open>accept_counts\<close> are maps, a key being present
  exactly when the map is not \<open>None\<close> there (so \<^verbatim>\<open>learned_values[k] = None\<close> in Python is
  \<open>Some None\<close> here). The field \<^verbatim>\<open>network\<close> is a reference to the shared \<^verbatim>\<open>Network\<close>; a handler
  uses it to read \<^verbatim>\<open>len(self.network.nodes)\<close>, passed below as the argument \<open>n\<close>, and to send,
  returned below as a list of effects that the network then performs.
\<close>

record 'v PaxosNode =
  node_id :: string
  proposal_id :: int
  current_proposal_value :: "'v option"
  promises_received :: "string fset"
  highest_accepted_id :: int
  highest_accepted_value :: "'v option"
  promised_proposal_id :: int
  accepted_proposal_id :: int
  accepted_value :: "'v option"
  learned_values :: "int \<rightharpoonup> 'v option"
  accept_counts :: "int \<rightharpoonup> ('v option \<rightharpoonup> string fset)"

definition init_node :: "string \<Rightarrow> 'v PaxosNode" where
  "init_node nid =
     \<lparr>node_id = nid, proposal_id = 0, current_proposal_value = None,
      promises_received = {||}, highest_accepted_id = - 1, highest_accepted_value = None,
      promised_proposal_id = - 1, accepted_proposal_id = - 1, accepted_value = None,
      learned_values = Map.empty, accept_counts = Map.empty\<rparr>"

text \<open>
  What a handler asks of the network: \<^verbatim>\<open>self.network.send_message(m)\<close> or
  \<^verbatim>\<open>self.network.broadcast(m, exclude=x)\<close>.
\<close>

datatype 'v effect = Send "'v Message" | Broadcast "'v Message" "string option"

section \<open>Handlers\<close>

text \<open>
  \<^verbatim>\<open>propose\<close>: the new id is \<^verbatim>\<open>int(time.time() * 1000000)\<close>. The clock is outside the
  program, so the integer it yields at the call is the argument \<open>now\<close>.
\<close>

definition propose :: "'v PaxosNode \<Rightarrow> int \<Rightarrow> 'v option \<Rightarrow> 'v PaxosNode \<times> 'v effect list" where
  "propose nd now v =
     (nd\<lparr>PaxosNode.proposal_id := now, current_proposal_value := v,
         promises_received := {||}, highest_accepted_id := - 1,
         highest_accepted_value := None\<rparr>,
      [Broadcast (mk_Message PREPARE now (node_id nd) ''broadcast'' None None None)
         (Some (node_id nd))])"

definition ReceiveProposeSendPromise ::
  "'v PaxosNode \<Rightarrow> 'v Message \<Rightarrow> 'v PaxosNode \<times> 'v effect list"
where
  "ReceiveProposeSendPromise nd m =
     (if Message.proposal_id m > promised_proposal_id nd then
        (nd\<lparr>promised_proposal_id := Message.proposal_id m\<rparr>,
         [Send (mk_Message PROMISE (Message.proposal_id m) (node_id nd) (sender_id m) None
            (if PaxosNode.accepted_proposal_id nd \<noteq> - 1
             then Some (PaxosNode.accepted_proposal_id nd) else None)
            (PaxosNode.accepted_value nd))])
      else (nd, []))"

text \<open>The first half of \<^verbatim>\<open>ReceivePromiseSendAccept\<close>: record the sender, note a higher
  previously accepted pair.\<close>

definition note_promise :: "'v PaxosNode \<Rightarrow> 'v Message \<Rightarrow> 'v PaxosNode" where
  "note_promise nd m =
     (let nd1 = nd\<lparr>promises_received := finsert (sender_id m) (promises_received nd)\<rparr> in
      case (Message.accepted_proposal_id m, Message.accepted_value m) of
        (Some a, Some v) \<Rightarrow>
          if a > highest_accepted_id nd1
          then nd1\<lparr>highest_accepted_id := a, highest_accepted_value := Some v\<rparr>
          else nd1
      | _ \<Rightarrow> nd1)"

definition ReceivePromiseSendAccept ::
  "nat \<Rightarrow> 'v PaxosNode \<Rightarrow> 'v Message \<Rightarrow> 'v PaxosNode \<times> 'v effect list"
where
  "ReceivePromiseSendAccept n nd m =
     (if Message.proposal_id m = PaxosNode.proposal_id nd then
        let nd2 = note_promise nd m;
            majority_threshold = n div 2 + 1
        in if fcard (promises_received nd2) \<ge> majority_threshold then
             let value_to_accept =
                   (if highest_accepted_value nd2 \<noteq> None then highest_accepted_value nd2
                    else current_proposal_value nd2)
             in (nd2\<lparr>promises_received := {||}\<rparr>,
                 [Broadcast (mk_Message ACCEPT (PaxosNode.proposal_id nd2) (node_id nd2)
                    ''broadcast'' value_to_accept None None) (Some (node_id nd2))])
           else (nd2, [])
      else (nd, []))"

definition ReceiveAcceptSendAccepted ::
  "'v PaxosNode \<Rightarrow> 'v Message \<Rightarrow> 'v PaxosNode \<times> 'v effect list"
where
  "ReceiveAcceptSendAccepted nd m =
     (if Message.proposal_id m \<ge> promised_proposal_id nd then
        (nd\<lparr>PaxosNode.accepted_proposal_id := Message.proposal_id m,
            PaxosNode.accepted_value := value m\<rparr>,
         [Broadcast (mk_Message ACCEPTED (Message.proposal_id m) (node_id nd) ''broadcast''
            (value m) None None) (Some (node_id nd))])
      else (nd, []))"

text \<open>
  \<^verbatim>\<open>handle_accepted\<close>: \<open>senders\<close> is the set \<^verbatim>\<open>accept_counts[proposal_key][value_key]\<close> after
  the two membership tests have created the missing entries and the sender, and the node itself
  when its own acceptance matches, have been added.
\<close>

definition counted_senders :: "'v PaxosNode \<Rightarrow> 'v Message \<Rightarrow> string fset" where
  "counted_senders nd m =
     (let by_value = (case accept_counts nd (Message.proposal_id m) of
                        None \<Rightarrow> Map.empty | Some d \<Rightarrow> d);
          senders0 = (case by_value (value m) of None \<Rightarrow> {||} | Some S \<Rightarrow> S);
          senders1 = finsert (sender_id m) senders0
      in if PaxosNode.accepted_proposal_id nd = Message.proposal_id m
            \<and> PaxosNode.accepted_value nd = value m
         then finsert (node_id nd) senders1 else senders1)"

definition handle_accepted :: "nat \<Rightarrow> 'v PaxosNode \<Rightarrow> 'v Message \<Rightarrow> 'v PaxosNode" where
  "handle_accepted n nd m =
     (let proposal_key = Message.proposal_id m;
          value_key = value m;
          by_value = (case accept_counts nd proposal_key of
                        None \<Rightarrow> Map.empty | Some d \<Rightarrow> d);
          senders = counted_senders nd m;
          nd1 = nd\<lparr>accept_counts :=
                     (accept_counts nd)(proposal_key \<mapsto> by_value(value_key \<mapsto> senders))\<rparr>;
          majority_threshold = n div 2 + 1;
          accepted_count = fcard senders
      in if accepted_count \<ge> majority_threshold then
           if learned_values nd1 proposal_key = None
           then nd1\<lparr>learned_values := (learned_values nd1)(proposal_key \<mapsto> value_key)\<rparr>
           else nd1
         else nd1)"

text \<open>\<^verbatim>\<open>receive_message\<close>: the dispatch on the message type. The enum has four members, so
  the final \<^verbatim>\<open>else\<close> of the source is never taken.\<close>

definition receive_message ::
  "nat \<Rightarrow> 'v PaxosNode \<Rightarrow> 'v Message \<Rightarrow> 'v PaxosNode \<times> 'v effect list"
where
  "receive_message n nd m =
     (case msg_type m of
        PREPARE \<Rightarrow> ReceiveProposeSendPromise nd m
      | PROMISE \<Rightarrow> ReceivePromiseSendAccept n nd m
      | ACCEPT \<Rightarrow> ReceiveAcceptSendAccepted nd m
      | ACCEPTED \<Rightarrow> (handle_accepted n nd m, []))"


text \<open>
  \<^verbatim>\<open>receive_message\<close> above gives a handler as it has run when it returns. A handler changes
  the node before its first call to the network, with one exception:
  \<^verbatim>\<open>ReceivePromiseSendAccept\<close> runs \<^verbatim>\<open>self.promises_received.clear()\<close> (line 174) after
  \<^verbatim>\<open>self.network.broadcast\<close> (line 170) has returned. The next two definitions give a handler
  as it has run when it makes its first call to the network (lines 133 to 170 for a promise):
  the node as it is then, what the handler sends, and whether line 174 is still to run.
\<close>

definition ReceivePromiseSendAccept_until_broadcast ::
  "nat \<Rightarrow> 'v PaxosNode \<Rightarrow> 'v Message \<Rightarrow> 'v PaxosNode \<times> 'v effect list \<times> bool"
where
  "ReceivePromiseSendAccept_until_broadcast n nd m =
     (if Message.proposal_id m = PaxosNode.proposal_id nd then
        let nd2 = note_promise nd m;
            majority_threshold = n div 2 + 1
        in if fcard (promises_received nd2) \<ge> majority_threshold then
             let value_to_accept =
                   (if highest_accepted_value nd2 \<noteq> None then highest_accepted_value nd2
                    else current_proposal_value nd2)
             in (nd2,
                 [Broadcast (mk_Message ACCEPT (PaxosNode.proposal_id nd2) (node_id nd2)
                    ''broadcast'' value_to_accept None None) (Some (node_id nd2))],
                 True)
           else (nd2, [], False)
      else (nd, [], False))"

definition receive_message_until_sends ::
  "nat \<Rightarrow> 'v PaxosNode \<Rightarrow> 'v Message \<Rightarrow> 'v PaxosNode \<times> 'v effect list \<times> bool"
where
  "receive_message_until_sends n nd m =
     (case msg_type m of
        PREPARE \<Rightarrow>
          (fst (ReceiveProposeSendPromise nd m), snd (ReceiveProposeSendPromise nd m), False)
      | PROMISE \<Rightarrow> ReceivePromiseSendAccept_until_broadcast n nd m
      | ACCEPT \<Rightarrow>
          (fst (ReceiveAcceptSendAccepted nd m), snd (ReceiveAcceptSendAccepted nd m), False)
      | ACCEPTED \<Rightarrow> (handle_accepted n nd m, [], False))"

section \<open>Network\<close>

text \<open>
  \<^verbatim>\<open>Network.nodes\<close> is a dictionary from node id to node, iterated by \<^verbatim>\<open>broadcast\<close> in
  insertion order: an association list, written with \<open>AList.update\<close> (which keeps the place of
  a key that is already there, as a Python dictionary does).

  \<^verbatim>\<open>send_message\<close> sleeps for \<^verbatim>\<open>message_delay\<close> and then calls \<^verbatim>\<open>receive_message\<close> of the
  receiver on the thread of the sender: the handler of the receiver, with everything that it
  sends in turn, runs inside the call, and the sending handler goes on when the call has
  returned. \<^verbatim>\<open>broadcast\<close> sends its copies one after the other in this way. Each proposal runs
  on a thread of its own (\<^verbatim>\<open>run_simulation\<close>); the threads share the nodes, and no lock is
  taken.

  The model keeps for each thread the work that the thread has still to do, the innermost
  first. \<open>Call m\<close> is a call \<^verbatim>\<open>send_message(m)\<close> to a receiver that is a member: the thread
  sleeps and then runs the handler of the receiver. \<open>Clear nid\<close> is line 174 of
  \<^verbatim>\<open>ReceivePromiseSendAccept\<close> on node \<open>nid\<close>, which is due when the calls of the broadcast
  before it have returned. A thread that has returned from \<^verbatim>\<open>propose\<close> has no work left.
\<close>

datatype 'v work = Call "'v Message" | Clear string

record 'v Network =
  nodes :: "(string \<times> 'v PaxosNode) list"
  threads :: "'v work list list"

definition empty_network :: "'v Network" where
  "empty_network = \<lparr>nodes = [], threads = []\<rparr>"

definition add_node :: "'v Network \<Rightarrow> 'v PaxosNode \<Rightarrow> 'v Network" where
  "add_node net nd = net\<lparr>nodes := AList.update (node_id nd) nd (nodes net)\<rparr>"

text \<open>\<^verbatim>\<open>PaxosSimulation.create_node\<close>.\<close>

definition create_node :: "'v Network \<Rightarrow> string \<Rightarrow> 'v Network" where
  "create_node net nid = add_node net (init_node nid)"

text \<open>The calls that \<^verbatim>\<open>send_message\<close> makes: one, if the receiver is a member.\<close>

definition send_message :: "'v Network \<Rightarrow> 'v Message \<Rightarrow> 'v work list" where
  "send_message net m =
     (if map_of (nodes net) (receiver_id m) \<noteq> None then [Call m] else [])"

text \<open>The addressed copies \<^verbatim>\<open>msg_copy\<close> that \<^verbatim>\<open>broadcast\<close> makes, in the order of the
  dictionary, and the calls that \<^verbatim>\<open>broadcast\<close> makes for them, in that order.\<close>

definition copies :: "'v Network \<Rightarrow> 'v Message \<Rightarrow> string option \<Rightarrow> 'v Message list" where
  "copies net m exclude =
     map (\<lambda>(nid, nd). m\<lparr>receiver_id := nid\<rparr>)
       (filter (\<lambda>(nid, nd). Some nid \<noteq> exclude) (nodes net))"

definition broadcast :: "'v Network \<Rightarrow> 'v Message \<Rightarrow> string option \<Rightarrow> 'v work list" where
  "broadcast net m exclude = concat (map (send_message net) (copies net m exclude))"

fun perform :: "'v Network \<Rightarrow> 'v effect list \<Rightarrow> 'v work list" where
  "perform net [] = []"
| "perform net (Send m # es) = send_message net m @ perform net es"
| "perform net (Broadcast m exclude # es) = broadcast net m exclude @ perform net es"

text \<open>
  Thread \<open>t\<close> runs from the end of one sleep to the start of its next one. If its first piece
  of work is \<open>Call m\<close>, the handler of the receiver runs on the node stored under
  \<^verbatim>\<open>receiver_id\<close> up to its first call to the network; the calls that the handler makes, and
  after them its line 174 if that is still to run, come before the rest of the work of the
  thread. If its first piece of work is \<open>Clear nid\<close>, the set \<^verbatim>\<open>promises_received\<close> of that node
  is emptied. The interpreter may switch threads at other points as well, so every run below
  is a run of the program, and the program has further runs.
\<close>

definition resume :: "'v Network \<Rightarrow> nat \<Rightarrow> 'v Network" where
  "resume net t =
     (if t < length (threads net) then
        case threads net ! t of
          [] \<Rightarrow> net
        | Call m # rest \<Rightarrow>
            (case map_of (nodes net) (receiver_id m) of
               None \<Rightarrow> net\<lparr>threads := (threads net)[t := rest]\<rparr>
             | Some nd \<Rightarrow>
                 let (nd', effs, clear_due) =
                       receive_message_until_sends (length (nodes net)) nd m;
                     net1 = net\<lparr>nodes := AList.update (receiver_id m) nd' (nodes net)\<rparr>
                 in net1\<lparr>threads := (threads net)
                      [t := perform net1 effs
                            @ (if clear_due then [Clear (receiver_id m)] else []) @ rest]\<rparr>)
        | Clear nid # rest \<Rightarrow>
            (case map_of (nodes net) nid of
               None \<Rightarrow> net\<lparr>threads := (threads net)[t := rest]\<rparr>
             | Some nd \<Rightarrow>
                 net\<lparr>nodes := AList.update nid (nd\<lparr>promises_received := {||}\<rparr>) (nodes net),
                     threads := (threads net)[t := rest]\<rparr>)
      else net)"

text \<open>\<^verbatim>\<open>self.network.nodes[nid].propose(val)\<close> of \<^verbatim>\<open>run_simulation\<close>, for a node id that
  \<^verbatim>\<open>add_proposal\<close> has checked, at the clock reading \<open>now\<close>, on a new thread: the node is
  updated and the thread has the calls of the PREPARE broadcast to make.\<close>

definition start_proposal :: "'v Network \<Rightarrow> string \<Rightarrow> int \<Rightarrow> 'v option \<Rightarrow> 'v Network" where
  "start_proposal net nid now v =
     (case map_of (nodes net) nid of
        None \<Rightarrow> net
      | Some nd \<Rightarrow>
          let (nd', effs) = propose nd now v;
              net1 = net\<lparr>nodes := AList.update nid nd' (nodes net)\<rparr>
          in net1\<lparr>threads := threads net @ [perform net1 effs]\<rparr>)"

definition initial_network :: "string list \<Rightarrow> 'v Network" where
  "initial_network ids = fold (\<lambda>nid net. create_node net nid) ids empty_network"

text \<open>The runs of the system: nodes are created first (the membership is fixed for a run),
  then proposals are started, each on its thread, and the threads take their steps in any
  order.\<close>

inductive reachable :: "string list \<Rightarrow> 'v Network \<Rightarrow> bool" for ids :: "string list" where
  start: "reachable ids (initial_network ids)"
| proposal: "reachable ids net \<Longrightarrow> reachable ids (start_proposal net nid now v)"
| progress: "reachable ids net \<Longrightarrow> reachable ids (resume net t)"

datatype 'v event = Propose string int "'v option" | Resume nat

fun step :: "'v Network \<Rightarrow> 'v event \<Rightarrow> 'v Network" where
  "step net (Propose nid now v) = start_proposal net nid now v"
| "step net (Resume t) = resume net t"

definition run :: "string list \<Rightarrow> 'v event list \<Rightarrow> 'v Network" where
  "run ids evs = foldl step (initial_network ids) evs"

text \<open>A node handling a list of messages one after the other, and what it sends meanwhile.\<close>

fun receive_all ::
  "nat \<Rightarrow> 'v PaxosNode \<Rightarrow> 'v Message list \<Rightarrow> 'v PaxosNode \<times> 'v effect list"
where
  "receive_all n nd [] = (nd, [])"
| "receive_all n nd (m # ms) =
     (let (nd1, es1) = receive_message n nd m;
          (nd2, es2) = receive_all n nd1 ms
      in (nd2, es1 @ es2))"

text \<open>The quorum calculator as the specification words it (section 4.5); the handlers above
  compute \<^verbatim>\<open>len(self.network.nodes) // 2 + 1\<close> in place.\<close>

definition majority_threshold :: "nat \<Rightarrow> nat" where
  "majority_threshold n = n div 2 + 1"

text \<open>The prior accepted pair that a promise carries, as \<^verbatim>\<open>ReceivePromiseSendAccept\<close> reads it
  (both fields not \<^verbatim>\<open>None\<close>), and the pairs carried by the promises for proposal \<open>k\<close> among a
  list of delivered messages.\<close>

definition prior_pair :: "'v Message \<Rightarrow> (int \<times> 'v) option" where
  "prior_pair m =
     (case (Message.accepted_proposal_id m, Message.accepted_value m) of
        (Some a, Some v) \<Rightarrow> Some (a, v)
      | _ \<Rightarrow> None)"

definition pairs_seen :: "int \<Rightarrow> 'v Message list \<Rightarrow> (int \<times> 'v) list" where
  "pairs_seen k ms =
     List.map_filter prior_pair
       (filter (\<lambda>m. msg_type m = PROMISE \<and> Message.proposal_id m = k) ms)"

text \<open>The proposer's best seen pair is a highest-id pair of a list, or is still as
  \<^verbatim>\<open>propose\<close> left it when the list is empty.\<close>

definition best_of :: "(int \<times> 'v) list \<Rightarrow> 'v PaxosNode \<Rightarrow> bool" where
  "best_of ps nd \<longleftrightarrow>
     (ps = [] \<and> highest_accepted_id nd = - 1 \<and> highest_accepted_value nd = None)
     \<or> (\<exists>v. highest_accepted_value nd = Some v \<and> (highest_accepted_id nd, v) \<in> set ps
           \<and> (\<forall>p \<in> set ps. fst p \<le> highest_accepted_id nd))"


section \<open>Observations on a network state\<close>

text \<open>The messages for which performing one effect makes a call.\<close>

definition outgoing :: "'v Network \<Rightarrow> 'v effect \<Rightarrow> 'v Message list" where
  "outgoing net e =
     (case e of
        Send m \<Rightarrow> (if map_of (nodes net) (receiver_id m) \<noteq> None then [m] else [])
      | Broadcast m exclude \<Rightarrow> copies net m exclude)"

text \<open>Every node is stored under its own id, and no id twice.\<close>

definition well_keyed :: "'v Network \<Rightarrow> bool" where
  "well_keyed net \<longleftrightarrow>
     distinct (map fst (nodes net)) \<and> (\<forall>p \<in> set (nodes net). node_id (snd p) = fst p)"

text \<open>The node has already counted message \<open>m\<close>: its sender is in
  \<^verbatim>\<open>accept_counts[proposal_id][value]\<close>, and so is the node itself if its own acceptance
  matches.\<close>

definition already_counted :: "'v PaxosNode \<Rightarrow> 'v Message \<Rightarrow> bool" where
  "already_counted nd m \<longleftrightarrow>
     (\<exists>d S. accept_counts nd (Message.proposal_id m) = Some d \<and> d (value m) = Some S
        \<and> sender_id m |\<in>| S
        \<and> (PaxosNode.accepted_proposal_id nd = Message.proposal_id m
             \<and> PaxosNode.accepted_value nd = value m \<longrightarrow> node_id nd |\<in>| S))"

text \<open>Every proposal id and every prior accepted id in the network, in the nodes and in the
  messages of the calls still to be made, comes from a clock reading that is not negative
  (\<open>- 1\<close> stands for no acceptance yet).\<close>

definition ids_from_clock :: "'v Network \<Rightarrow> bool" where
  "ids_from_clock net \<longleftrightarrow>
     (\<forall>todo \<in> set (threads net). \<forall>m. Call m \<in> set todo \<longrightarrow>
        0 \<le> Message.proposal_id m \<and> (\<forall>a. Message.accepted_proposal_id m = Some a \<longrightarrow> 0 \<le> a))
     \<and> (\<forall>p \<in> set (nodes net).
          - 1 \<le> PaxosNode.accepted_proposal_id (snd p) \<and> 0 \<le> PaxosNode.proposal_id (snd p))"

definition clock_nonneg :: "'v event \<Rightarrow> bool" where
  "clock_nonneg e = (case e of Propose nid now v \<Rightarrow> 0 \<le> now | Resume t \<Rightarrow> True)"

section \<open>A run in which one node proposes twice at one clock reading\<close>

text \<open>
  Five nodes \<open>p\<close>, \<open>a\<close>, \<open>b\<close>, \<open>c\<close>, \<open>d\<close>, created in this order, and three threads, numbered 0, 1
  and 2 in the order in which they start, all three proposing on node \<open>p\<close>.

  \<open>first_round\<close>: thread 0 proposes \<open>w\<close> at clock reading 1; its PREPARE reaches \<open>a\<close>, \<open>b\<close> and
  \<open>c\<close>, and each promise comes back to \<open>p\<close> before the next PREPARE is sent. The third promise
  is a majority, so thread 0 goes to sleep in the first call of its ACCEPT broadcast.

  \<open>second_round\<close>: threads 1 and 2 propose \<open>x\<close> and \<open>y\<close>, both at clock reading 2. Thread 2
  then does for id 2 what thread 0 did for id 1, and goes to sleep in the first call of its
  ACCEPT broadcast; line 174 is still to run on this thread.

  \<open>late_accept\<close>: thread 0 wakes up and makes the four calls of its ACCEPT broadcast for id 1.

  \<open>second_quorum\<close>: thread 1 makes the four calls of its PREPARE broadcast for id 2, and the
  promise of \<open>d\<close> comes back to \<open>p\<close>.

  \<open>fork_run\<close>: thread 1 goes on for twelve steps (the calls of its ACCEPT broadcast to \<open>a\<close>,
  \<open>b\<close> and \<open>c\<close>, each followed by the ACCEPTED broadcast of the receiver, the last of these up
  to its first call), then thread 2 for thirteen steps (the same, the last ACCEPTED broadcast
  up to its second call).
\<close>

definition first_round :: "string event list" where
  "first_round = [Propose ''p'' 1 (Some ''w'')] @ replicate 6 (Resume 0)"

definition second_round :: "string event list" where
  "second_round =
     first_round @ [Propose ''p'' 2 (Some ''x''), Propose ''p'' 2 (Some ''y'')]
       @ replicate 6 (Resume 2)"

definition late_accept :: "string event list" where
  "late_accept = second_round @ replicate 4 (Resume 0)"

definition second_quorum :: "string event list" where
  "second_quorum = late_accept @ replicate 5 (Resume 1)"

definition fork_run :: "string event list" where
  "fork_run = second_quorum @ replicate 12 (Resume 1) @ replicate 13 (Resume 2)"

text \<open>The state of the node stored under an id, read through a field.\<close>

definition node_field :: "'v Network \<Rightarrow> string \<Rightarrow> ('v PaxosNode \<Rightarrow> 'a) \<Rightarrow> 'a option" where
  "node_field net nid f = map_option f (map_of (nodes net) nid)"

section \<open>Properties of the handlers\<close>

lemmas handler_defs = receive_message_def ReceiveProposeSendPromise_def
  ReceivePromiseSendAccept_def ReceiveAcceptSendAccepted_def handle_accepted_def
  note_promise_def Let_def

lemma receive_all_Cons:
  "receive_all n nd (m # ms) =
     (fst (receive_all n (fst (receive_message n nd m)) ms),
      snd (receive_message n nd m) @ snd (receive_all n (fst (receive_message n nd m)) ms))"
  by (simp add: split_beta)

subsection \<open>The learner\<close>

lemma handle_accepted_counts:
  "accept_counts (handle_accepted n nd m) =
     (accept_counts nd)(Message.proposal_id m \<mapsto>
        (case accept_counts nd (Message.proposal_id m) of None \<Rightarrow> Map.empty | Some d \<Rightarrow> d)
          (value m \<mapsto> counted_senders nd m))"
  by (simp add: handle_accepted_def Let_def)

lemma handle_accepted_learned:
  "learned_values (handle_accepted n nd m) =
     (if n div 2 + 1 \<le> fcard (counted_senders nd m)
         \<and> learned_values nd (Message.proposal_id m) = None
      then (learned_values nd)(Message.proposal_id m \<mapsto> value m)
      else learned_values nd)"
  by (simp add: handle_accepted_def Let_def)

lemma handle_accepted_record:
  "handle_accepted n nd m =
     nd\<lparr>accept_counts := accept_counts (handle_accepted n nd m),
        learned_values := learned_values (handle_accepted n nd m)\<rparr>"
  by (simp add: handle_accepted_def Let_def)

lemma handle_accepted_other:
  "node_id (handle_accepted n nd m) = node_id nd"
  "PaxosNode.accepted_proposal_id (handle_accepted n nd m) = PaxosNode.accepted_proposal_id nd"
  "PaxosNode.accepted_value (handle_accepted n nd m) = PaxosNode.accepted_value nd"
  "promised_proposal_id (handle_accepted n nd m) = promised_proposal_id nd"
  "PaxosNode.proposal_id (handle_accepted n nd m) = PaxosNode.proposal_id nd"
  "promises_received (handle_accepted n nd m) = promises_received nd"
  "highest_accepted_id (handle_accepted n nd m) = highest_accepted_id nd"
  "highest_accepted_value (handle_accepted n nd m) = highest_accepted_value nd"
  "current_proposal_value (handle_accepted n nd m) = current_proposal_value nd"
  by (simp_all add: handle_accepted_def Let_def)

lemma handle_accepted_senders:
  "\<exists>d. accept_counts (handle_accepted n nd m) (Message.proposal_id m) = Some d
       \<and> d (value m) = Some (counted_senders nd m)"
  by (simp add: handle_accepted_counts)

lemma handle_accepted_learned_state:
  "learned_values (handle_accepted n nd m) =
     (if (\<exists>d S. accept_counts (handle_accepted n nd m) (Message.proposal_id m) = Some d
             \<and> d (value m) = Some S \<and> n div 2 + 1 \<le> fcard S)
         \<and> learned_values nd (Message.proposal_id m) = None
      then (learned_values nd)(Message.proposal_id m \<mapsto> value m)
      else learned_values nd)"
proof -
  obtain d where d: "accept_counts (handle_accepted n nd m) (Message.proposal_id m) = Some d"
    "d (value m) = Some (counted_senders nd m)"
    using handle_accepted_senders by blast
  have "(\<exists>d S. accept_counts (handle_accepted n nd m) (Message.proposal_id m) = Some d
             \<and> d (value m) = Some S \<and> n div 2 + 1 \<le> fcard S)
        \<longleftrightarrow> n div 2 + 1 \<le> fcard (counted_senders nd m)"
    using d by auto
  then show ?thesis by (simp only: handle_accepted_learned)
qed

lemma counted_senders_again:
  "counted_senders (handle_accepted n nd m) m = counted_senders nd m"
proof -
  have "sender_id m |\<in>| counted_senders nd m"
    by (simp add: counted_senders_def Let_def)
  moreover have "PaxosNode.accepted_proposal_id nd = Message.proposal_id m
      \<and> PaxosNode.accepted_value nd = value m \<Longrightarrow> node_id nd |\<in>| counted_senders nd m"
    by (simp add: counted_senders_def Let_def)
  ultimately show ?thesis
    unfolding counted_senders_def [of "handle_accepted n nd m" m]
    by (auto simp add: handle_accepted_counts handle_accepted_other Let_def finsert_absorb)
qed

lemma handle_accepted_twice_counts:
  "accept_counts (handle_accepted n (handle_accepted n nd m) m)
     = accept_counts (handle_accepted n nd m)"
  by (simp add: handle_accepted_counts [of n "handle_accepted n nd m" m] counted_senders_again)
    (simp add: handle_accepted_counts)

lemma handle_accepted_twice_learned:
  "learned_values (handle_accepted n (handle_accepted n nd m) m)
     = learned_values (handle_accepted n nd m)"
  by (simp add: handle_accepted_learned [of n "handle_accepted n nd m" m] counted_senders_again)
    (auto simp add: handle_accepted_learned)

lemma handle_accepted_twice:
  "handle_accepted n (handle_accepted n nd m) m = handle_accepted n nd m"
proof -
  have "handle_accepted n (handle_accepted n nd m) m =
     (handle_accepted n nd m)\<lparr>accept_counts := accept_counts (handle_accepted n nd m),
        learned_values := learned_values (handle_accepted n nd m)\<rparr>"
    using handle_accepted_record [of n "handle_accepted n nd m" m]
    by (simp only: handle_accepted_twice_counts handle_accepted_twice_learned)
  then show ?thesis by simp
qed

lemma receive_message_learned_kept:
  "learned_values nd k = Some v \<Longrightarrow> learned_values (fst (receive_message n nd m)) k = Some v"
  by (cases "msg_type m") (auto simp add: handler_defs split: option.splits)

lemma receive_all_learned_kept:
  "learned_values nd k = Some v \<Longrightarrow> learned_values (fst (receive_all n nd ms)) k = Some v"
proof (induction ms arbitrary: nd)
  case Nil
  then show ?case by simp
next
  case (Cons m ms)
  from Cons.prems have "learned_values (fst (receive_message n nd m)) k = Some v"
    by (rule receive_message_learned_kept)
  then have "learned_values (fst (receive_all n (fst (receive_message n nd m)) ms)) k = Some v"
    by (rule Cons.IH)
  then show ?case by (simp only: receive_all_Cons fst_conv)
qed

text \<open>
  Claim C7 (write-once learning). Once \<^verbatim>\<open>learned_values[k]\<close> is set on a node it keeps its
  value under every further sequence of delivered messages and under \<^verbatim>\<open>propose\<close>; and the
  ACCEPTED handler changes \<^verbatim>\<open>learned_values\<close> only by setting the entry of the message's
  proposal id to the message's value, exactly when the set
  \<^verbatim>\<open>accept_counts[proposal_id][value]\<close> has reached the threshold and the entry is not yet set.
\<close>

theorem learned_is_write_once:
  "(learned_values nd k = Some v \<longrightarrow>
      learned_values (fst (receive_all n nd ms)) k = Some v
      \<and> learned_values (fst (propose nd now w)) k = Some v)
   \<and> learned_values (handle_accepted n nd m) =
       (if (\<exists>d S. accept_counts (handle_accepted n nd m) (Message.proposal_id m) = Some d
               \<and> d (value m) = Some S \<and> n div 2 + 1 \<le> fcard S)
           \<and> learned_values nd (Message.proposal_id m) = None
        then (learned_values nd)(Message.proposal_id m \<mapsto> value m)
        else learned_values nd)"
  using receive_all_learned_kept [of nd k v n ms] handle_accepted_learned_state [of n nd m]
  by (simp add: propose_def)

theorem learned_is_write_once_witness:
  "learned_values (fst (receive_all 3 (init_node ''a'')
       [mk_Message ACCEPTED 4 ''b'' ''a'' (Some ''x'') None None,
        mk_Message ACCEPTED 4 ''c'' ''a'' (Some ''x'') None None])) 4 = Some (Some ''x'')
   \<and> learned_values (fst (receive_all 3
       (fst (receive_all 3 (init_node ''a'')
          [mk_Message ACCEPTED 4 ''b'' ''a'' (Some ''x'') None None,
           mk_Message ACCEPTED 4 ''c'' ''a'' (Some ''x'') None None]))
       [mk_Message ACCEPTED 4 ''b'' ''a'' (Some ''y'') None None,
        mk_Message ACCEPTED 4 ''c'' ''a'' (Some ''y'') None None,
        mk_Message PREPARE 9 ''b'' ''a'' None None None])) 4 = Some (Some ''x'')"
proof -
  have l: "learned_values (fst (receive_all 3 (init_node ''a'')
       [mk_Message ACCEPTED 4 ''b'' ''a'' (Some ''x'') None None,
        mk_Message ACCEPTED 4 ''c'' ''a'' (Some ''x'') None None])) 4 = Some (Some ''x'')"
    by (simp add: receive_message_def handle_accepted_learned handle_accepted_counts
        counted_senders_def handle_accepted_other init_node_def mk_Message_def
        fcard_finsert_if)
  show ?thesis
    using l learned_is_write_once [of "fst (receive_all 3 (init_node ''a'')
       [mk_Message ACCEPTED 4 ''b'' ''a'' (Some ''x'') None None,
        mk_Message ACCEPTED 4 ''c'' ''a'' (Some ''x'') None None])" 4 "Some ''x''" 3
       "[mk_Message ACCEPTED 4 ''b'' ''a'' (Some ''y'') None None,
        mk_Message ACCEPTED 4 ''c'' ''a'' (Some ''y'') None None,
        mk_Message PREPARE 9 ''b'' ''a'' None None None]"]
    by blast
qed

subsection \<open>The quorum\<close>

text \<open>
  Claim C8 (majority threshold). The proposer broadcasts ACCEPT exactly when the promise is for
  its current proposal and the promises recorded number at least \<open>n div 2 + 1\<close>, and the learner
  sets an unset entry exactly when the counted senders number at least \<open>n div 2 + 1\<close>, where \<open>n\<close>
  is the membership size; for \<open>n\<close> in 1, 2, 3, 4, 5, 7, 10 that threshold is 1, 2, 2, 3, 3, 4, 6.
\<close>

theorem majority_threshold_is_half_plus_one:
  "(snd (ReceivePromiseSendAccept n nd m) \<noteq> [] \<longleftrightarrow>
      Message.proposal_id m = PaxosNode.proposal_id nd
      \<and> majority_threshold n \<le> fcard (promises_received (note_promise nd m)))
   \<and> learned_values (handle_accepted n nd m) =
       (if majority_threshold n \<le> fcard (counted_senders nd m)
           \<and> learned_values nd (Message.proposal_id m) = None
        then (learned_values nd)(Message.proposal_id m \<mapsto> value m)
        else learned_values nd)
   \<and> majority_threshold n = n div 2 + 1
   \<and> map majority_threshold [1, 2, 3, 4, 5, 7, 10] = [1, 2, 2, 3, 3, 4, 6]"
  by (simp add: ReceivePromiseSendAccept_def handle_accepted_learned majority_threshold_def
      Let_def)

subsection \<open>The acceptor\<close>

lemma receive_message_promised_mono:
  "promised_proposal_id nd \<le> promised_proposal_id (fst (receive_message n nd m))"
  by (cases "msg_type m") (simp_all add: handler_defs split: option.splits)

lemma receive_all_promised_mono:
  "promised_proposal_id nd \<le> promised_proposal_id (fst (receive_all n nd ms))"
proof (induction ms arbitrary: nd)
  case Nil
  show ?case by simp
next
  case (Cons m ms)
  have "promised_proposal_id nd \<le> promised_proposal_id (fst (receive_message n nd m))"
    by (rule receive_message_promised_mono)
  also have "\<dots> \<le> promised_proposal_id (fst (receive_all n (fst (receive_message n nd m)) ms))"
    by (rule Cons.IH)
  finally show ?case by (simp only: receive_all_Cons fst_conv)
qed

lemma prepare_run_promised:
  "map (\<lambda>j. promised_proposal_id (fst (receive_all n (init_node ''a'')
           (take j (map (\<lambda>k. mk_Message PREPARE k ''p'' ''a'' None None None) [5, 3, 7, 7, 9])))))
      [1, 2, 3, 4, 5] = [5, 5, 7, 7, 9]"
  by (simp add: handler_defs init_node_def mk_Message_def)

lemma prepare_run_replies:
  "map (\<lambda>j. snd (receive_all n (init_node ''a'')
           (take j (map (\<lambda>k. mk_Message PREPARE k ''p'' ''a'' None None None) [5, 3, 7, 7, 9]))))
      [1, 2, 3, 4, 5] =
    [[Send (mk_Message PROMISE 5 ''a'' ''p'' None None None)],
     [Send (mk_Message PROMISE 5 ''a'' ''p'' None None None)],
     [Send (mk_Message PROMISE 5 ''a'' ''p'' None None None),
      Send (mk_Message PROMISE 7 ''a'' ''p'' None None None)],
     [Send (mk_Message PROMISE 5 ''a'' ''p'' None None None),
      Send (mk_Message PROMISE 7 ''a'' ''p'' None None None)],
     [Send (mk_Message PROMISE 5 ''a'' ''p'' None None None),
      Send (mk_Message PROMISE 7 ''a'' ''p'' None None None),
      Send (mk_Message PROMISE 9 ''a'' ''p'' None None None)]]"
  by (simp add: handler_defs init_node_def mk_Message_def)

text \<open>
  Claim C5 (monotonic promise). \<^verbatim>\<open>promised_proposal_id\<close> never decreases over any sequence of
  delivered messages (nor under \<^verbatim>\<open>propose\<close>); the PREPARE handler sets it to the message's id
  and sends one PROMISE to the sender exactly when that id is strictly greater, and otherwise
  changes nothing and sends nothing; and a fresh acceptor fed PREPARE ids 5, 3, 7, 7, 9 goes
  through the promised ids 5, 5, 7, 7, 9 and has sent, after each of them, the promises for
  5; 5; 5, 7; 5, 7; 5, 7, 9.
\<close>

theorem promised_id_is_monotonic:
  "promised_proposal_id nd \<le> promised_proposal_id (fst (receive_all n nd ms))
   \<and> promised_proposal_id (fst (propose nd now w)) = promised_proposal_id nd
   \<and> (msg_type m = PREPARE \<longrightarrow>
        receive_message n nd m =
          (if Message.proposal_id m > promised_proposal_id nd
           then (nd\<lparr>promised_proposal_id := Message.proposal_id m\<rparr>,
                 [Send (mk_Message PROMISE (Message.proposal_id m) (node_id nd) (sender_id m)
                    None
                    (if PaxosNode.accepted_proposal_id nd \<noteq> - 1
                     then Some (PaxosNode.accepted_proposal_id nd) else None)
                    (PaxosNode.accepted_value nd))])
           else (nd, [])))
   \<and> map (\<lambda>j. promised_proposal_id (fst (receive_all n (init_node ''a'')
           (take j (map (\<lambda>k. mk_Message PREPARE k ''p'' ''a'' None None None) [5, 3, 7, 7, 9])))))
        [1, 2, 3, 4, 5] = [5, 5, 7, 7, 9]
   \<and> map (\<lambda>j. snd (receive_all n (init_node ''a'')
           (take j (map (\<lambda>k. mk_Message PREPARE k ''p'' ''a'' None None None) [5, 3, 7, 7, 9]))))
        [1, 2, 3, 4, 5] =
      [[Send (mk_Message PROMISE 5 ''a'' ''p'' None None None)],
       [Send (mk_Message PROMISE 5 ''a'' ''p'' None None None)],
       [Send (mk_Message PROMISE 5 ''a'' ''p'' None None None),
        Send (mk_Message PROMISE 7 ''a'' ''p'' None None None)],
       [Send (mk_Message PROMISE 5 ''a'' ''p'' None None None),
        Send (mk_Message PROMISE 7 ''a'' ''p'' None None None)],
       [Send (mk_Message PROMISE 5 ''a'' ''p'' None None None),
        Send (mk_Message PROMISE 7 ''a'' ''p'' None None None),
        Send (mk_Message PROMISE 9 ''a'' ''p'' None None None)]]"
proof -
  have step: "msg_type m = PREPARE \<longrightarrow>
        receive_message n nd m =
          (if Message.proposal_id m > promised_proposal_id nd
           then (nd\<lparr>promised_proposal_id := Message.proposal_id m\<rparr>,
                 [Send (mk_Message PROMISE (Message.proposal_id m) (node_id nd) (sender_id m)
                    None
                    (if PaxosNode.accepted_proposal_id nd \<noteq> - 1
                     then Some (PaxosNode.accepted_proposal_id nd) else None)
                    (PaxosNode.accepted_value nd))])
           else (nd, []))"
    by (simp add: receive_message_def ReceiveProposeSendPromise_def)
  have unchanged: "promised_proposal_id (fst (propose nd now w)) = promised_proposal_id nd"
    by (simp add: propose_def)
  from receive_all_promised_mono [of nd n ms] unchanged step
    prepare_run_promised [of n] prepare_run_replies [of n]
  show ?thesis by (intro conjI)
qed

theorem promised_id_is_monotonic_witness:
  "msg_type (mk_Message PREPARE 3 ''p'' ''a'' None None None :: string Message) = PREPARE
   \<and> promised_proposal_id (fst (receive_message 3
         (fst (receive_message 3 (init_node ''a'')
            (mk_Message PREPARE 5 ''p'' ''a'' None None None)))
         (mk_Message PREPARE 3 ''p'' ''a'' None None None :: string Message))) = 5
   \<and> snd (receive_message 3
         (fst (receive_message 3 (init_node ''a'')
            (mk_Message PREPARE 5 ''p'' ''a'' None None None)))
         (mk_Message PREPARE 3 ''p'' ''a'' None None None :: string Message)) = []"
proof -
  have t: "msg_type (mk_Message PREPARE 3 ''p'' ''a'' None None None :: string Message) = PREPARE"
    by (simp add: mk_Message_def)
  have p: "promised_proposal_id (fst (receive_message 3 (init_node ''a'')
            (mk_Message PREPARE 5 ''p'' ''a'' None None None :: string Message))) = 5"
    by (simp add: handler_defs init_node_def mk_Message_def)
  have i: "Message.proposal_id
      (mk_Message PREPARE 3 ''p'' ''a'' None None None :: string Message) = 3"
    by (simp add: mk_Message_def)
  have "receive_message 3
        (fst (receive_message 3 (init_node ''a'')
           (mk_Message PREPARE 5 ''p'' ''a'' None None None)))
        (mk_Message PREPARE 3 ''p'' ''a'' None None None :: string Message)
      = (fst (receive_message 3 (init_node ''a'')
           (mk_Message PREPARE 5 ''p'' ''a'' None None None)), [])"
    using promised_id_is_monotonic [of "fst (receive_message 3 (init_node ''a'')
            (mk_Message PREPARE 5 ''p'' ''a'' None None None))" 3 "[]" 0 None
            "mk_Message PREPARE 3 ''p'' ''a'' None None None :: string Message",
            THEN conjunct2, THEN conjunct2, THEN conjunct1, THEN mp, OF t]
    by (simp only: p i) simp
  with t p show ?thesis by simp
qed

text \<open>
  Claim C6 (ACCEPT handling). For a delivered ACCEPT message: when its proposal id is at least
  \<^verbatim>\<open>promised_proposal_id\<close> the acceptor sets \<^verbatim>\<open>accepted_proposal_id\<close> and \<^verbatim>\<open>accepted_value\<close> from
  the message and asks for one broadcast of ACCEPTED with the same id and value; otherwise the
  node state is unchanged and nothing is sent. So it accepts and broadcasts if and only if the
  id is at least the promised id.
\<close>

theorem accept_iff_not_below_promise:
  assumes "msg_type m = ACCEPT"
  shows "(promised_proposal_id nd \<le> Message.proposal_id m \<longrightarrow>
            receive_message n nd m =
              (nd\<lparr>PaxosNode.accepted_proposal_id := Message.proposal_id m,
                  PaxosNode.accepted_value := value m\<rparr>,
               [Broadcast (mk_Message ACCEPTED (Message.proposal_id m) (node_id nd)
                  ''broadcast'' (value m) None None) (Some (node_id nd))]))
         \<and> (\<not> promised_proposal_id nd \<le> Message.proposal_id m \<longrightarrow>
              receive_message n nd m = (nd, []))
         \<and> (snd (receive_message n nd m) \<noteq> [] \<longleftrightarrow>
              promised_proposal_id nd \<le> Message.proposal_id m)"
  using assms by (simp add: receive_message_def ReceiveAcceptSendAccepted_def)

theorem accept_iff_not_below_promise_witness:
  "msg_type (mk_Message ACCEPT 3 ''p'' ''a'' (Some ''x'') None None) = ACCEPT
   \<and> receive_message 3 ((init_node ''a'')\<lparr>promised_proposal_id := 5\<rparr>)
        (mk_Message ACCEPT 3 ''p'' ''a'' (Some ''x'') None None)
      = ((init_node ''a'')\<lparr>promised_proposal_id := 5\<rparr>, [])
   \<and> snd (receive_message 3 ((init_node ''a'')\<lparr>promised_proposal_id := 3\<rparr>)
        (mk_Message ACCEPT 3 ''p'' ''a'' (Some ''x'') None None))
      = [Broadcast (mk_Message ACCEPTED 3 ''a'' ''broadcast'' (Some ''x'') None None)
           (Some ''a'')]"
proof -
  have t: "msg_type (mk_Message ACCEPT 3 ''p'' ''a'' (Some ''x'') None None) = ACCEPT"
    by (simp add: mk_Message_def)
  have i: "Message.proposal_id (mk_Message ACCEPT 3 ''p'' ''a'' (Some ''x'') None None) = 3"
    "value (mk_Message ACCEPT 3 ''p'' ''a'' (Some ''x'') None None) = Some ''x''"
    by (simp_all add: mk_Message_def)
  have drop: "receive_message 3 ((init_node ''a'')\<lparr>promised_proposal_id := 5\<rparr>)
        (mk_Message ACCEPT 3 ''p'' ''a'' (Some ''x'') None None)
      = ((init_node ''a'')\<lparr>promised_proposal_id := 5\<rparr>, [])"
    using accept_iff_not_below_promise [OF t, of "(init_node ''a'')\<lparr>promised_proposal_id := 5\<rparr>" 3]
    by (simp add: i)
  have take: "snd (receive_message 3 ((init_node ''a'')\<lparr>promised_proposal_id := 3\<rparr>)
        (mk_Message ACCEPT 3 ''p'' ''a'' (Some ''x'') None None))
      = [Broadcast (mk_Message ACCEPTED 3 ''a'' ''broadcast'' (Some ''x'') None None)
           (Some ''a'')]"
    using accept_iff_not_below_promise [OF t, of "(init_node ''a'')\<lparr>promised_proposal_id := 3\<rparr>" 3]
    by (simp add: i init_node_def)
  from t drop take show ?thesis by (intro conjI)
qed

subsection \<open>The proposer\<close>

text \<open>
  Claim C2 (proposal ids are unique and strictly increasing) does not hold of \<^verbatim>\<open>propose\<close>.
  The comment at line 88 says that the timestamp is there to give unique proposal ids across
  all nodes, and line 89 sets the id to the clock reading and nothing else. At one clock
  reading, here 7, a node that proposes twice gets the same id twice, so the second id is not
  above the first, and two nodes that propose get the same id.
\<close>

theorem proposal_id_repeats_at_same_reading:
  "\<not> PaxosNode.proposal_id (fst (propose (init_node ''a'') 7 (Some ''x'')))
       < PaxosNode.proposal_id
           (fst (propose (fst (propose (init_node ''a'') 7 (Some ''x''))) 7 (Some ''y'')))
   \<and> PaxosNode.proposal_id (fst (propose (init_node ''a'') 7 (Some ''x'')))
       = PaxosNode.proposal_id (fst (propose (init_node ''b'') 7 (Some ''y'')))"
  by (simp add: propose_def)

lemma receive_message_best_seen_changes:
  assumes "highest_accepted_id (fst (receive_message n nd m)) \<noteq> highest_accepted_id nd
     \<or> highest_accepted_value (fst (receive_message n nd m)) \<noteq> highest_accepted_value nd"
  shows "msg_type m = PROMISE \<and> Message.proposal_id m = PaxosNode.proposal_id nd \<and>
   (\<exists>a v. Message.accepted_proposal_id m = Some a \<and> Message.accepted_value m = Some v
      \<and> a > highest_accepted_id nd)"
  using assms
  by (cases "msg_type m")
     (auto simp add: handler_defs split: if_splits option.splits)

text \<open>
  Claim C10 (a promise whose accepted value is \<^verbatim>\<open>None\<close>). For a PROMISE matching the current
  proposal whose \<^verbatim>\<open>accepted_proposal_id\<close> is set, to any id, but whose \<^verbatim>\<open>accepted_value\<close> is
  \<^verbatim>\<open>None\<close>, \<^verbatim>\<open>highest_accepted_id\<close> and \<^verbatim>\<open>highest_accepted_value\<close> stay as they were; and
  whenever a delivery changes either of them, the message is a PROMISE for the current proposal
  carrying both an accepted id and an accepted value.
\<close>

theorem none_value_is_never_adopted:
  "(msg_type m = PROMISE \<and> Message.proposal_id m = PaxosNode.proposal_id nd
      \<and> Message.accepted_proposal_id m = Some a \<and> Message.accepted_value m = None \<longrightarrow>
      highest_accepted_id (fst (receive_message n nd m)) = highest_accepted_id nd
      \<and> highest_accepted_value (fst (receive_message n nd m)) = highest_accepted_value nd)
   \<and> (highest_accepted_id (fst (receive_message n nd m)) \<noteq> highest_accepted_id nd
        \<or> highest_accepted_value (fst (receive_message n nd m)) \<noteq> highest_accepted_value nd
      \<longrightarrow> msg_type m = PROMISE \<and> Message.proposal_id m = PaxosNode.proposal_id nd
          \<and> (\<exists>b v. Message.accepted_proposal_id m = Some b
                \<and> Message.accepted_value m = Some v))"
proof (intro conjI impI)
  assume "msg_type m = PROMISE \<and> Message.proposal_id m = PaxosNode.proposal_id nd
      \<and> Message.accepted_proposal_id m = Some a \<and> Message.accepted_value m = None"
  then show "highest_accepted_id (fst (receive_message n nd m)) = highest_accepted_id nd"
    and "highest_accepted_value (fst (receive_message n nd m)) = highest_accepted_value nd"
    by (simp_all add: handler_defs)
next
  assume c: "highest_accepted_id (fst (receive_message n nd m)) \<noteq> highest_accepted_id nd
        \<or> highest_accepted_value (fst (receive_message n nd m)) \<noteq> highest_accepted_value nd"
  from receive_message_best_seen_changes [OF c]
  show "msg_type m = PROMISE" and "Message.proposal_id m = PaxosNode.proposal_id nd"
    and "\<exists>b v. Message.accepted_proposal_id m = Some b \<and> Message.accepted_value m = Some v"
    by blast+
qed

theorem none_value_is_never_adopted_witness:
  "highest_accepted_id (fst (receive_message 3
       ((init_node ''a'')\<lparr>PaxosNode.proposal_id := 8, highest_accepted_id := 2,
          highest_accepted_value := Some ''x''\<rparr>)
       (mk_Message PROMISE 8 ''b'' ''a'' None (Some 5) None))) = 2
   \<and> highest_accepted_value (fst (receive_message 3
       ((init_node ''a'')\<lparr>PaxosNode.proposal_id := 8, highest_accepted_id := 2,
          highest_accepted_value := Some ''x''\<rparr>)
       (mk_Message PROMISE 8 ''b'' ''a'' None (Some 5) None))) = Some ''x''"
proof -
  have h: "msg_type (mk_Message PROMISE 8 ''b'' ''a'' None (Some 5) None :: string Message)
        = PROMISE
      \<and> Message.proposal_id (mk_Message PROMISE 8 ''b'' ''a'' None (Some 5) None :: string Message)
        = PaxosNode.proposal_id ((init_node ''a'')\<lparr>PaxosNode.proposal_id := 8,
            highest_accepted_id := 2, highest_accepted_value := Some ''x''\<rparr>)
      \<and> Message.accepted_proposal_id
          (mk_Message PROMISE 8 ''b'' ''a'' None (Some 5) None :: string Message) = Some 5
      \<and> Message.accepted_value
          (mk_Message PROMISE 8 ''b'' ''a'' None (Some 5) None :: string Message) = None"
    by (simp add: mk_Message_def)
  from none_value_is_never_adopted [of "mk_Message PROMISE 8 ''b'' ''a'' None (Some 5) None"
      "(init_node ''a'')\<lparr>PaxosNode.proposal_id := 8, highest_accepted_id := 2,
          highest_accepted_value := Some ''x''\<rparr>" 5 3, THEN conjunct1, THEN mp, OF h]
  show ?thesis by simp
qed

lemma pairs_seen_append: "pairs_seen k (ms @ ms') = pairs_seen k ms @ pairs_seen k ms'"
  by (simp add: pairs_seen_def map_filter_def)

lemma pairs_seen_single:
  "pairs_seen k [m] =
     (if msg_type m = PROMISE \<and> Message.proposal_id m = k
      then (case prior_pair m of None \<Rightarrow> [] | Some p \<Rightarrow> [p]) else [])"
  by (simp add: pairs_seen_def map_filter_def split: option.splits)

lemma receive_message_proposer_frame:
  "PaxosNode.proposal_id (fst (receive_message n nd m)) = PaxosNode.proposal_id nd"
  "current_proposal_value (fst (receive_message n nd m)) = current_proposal_value nd"
  by (cases "msg_type m"; simp add: handler_defs split: option.splits)+

lemma receive_all_proposer_frame:
  "PaxosNode.proposal_id (fst (receive_all n nd ms)) = PaxosNode.proposal_id nd
   \<and> current_proposal_value (fst (receive_all n nd ms)) = current_proposal_value nd"
proof (induction ms arbitrary: nd)
  case Nil
  show ?case by simp
next
  case (Cons m ms)
  show ?case
    using Cons.IH [of "fst (receive_message n nd m)"]
    by (simp only: receive_all_Cons fst_conv receive_message_proposer_frame)
qed

lemma best_of_step:
  assumes b: "best_of ps nd"
    and nn: "\<forall>p \<in> set (ps @ pairs_seen (PaxosNode.proposal_id nd) [m]). 0 \<le> fst p"
  shows "best_of (ps @ pairs_seen (PaxosNode.proposal_id nd) [m]) (fst (receive_message n nd m))"
proof (cases "msg_type m = PROMISE \<and> Message.proposal_id m = PaxosNode.proposal_id nd")
  case False
  then have "pairs_seen (PaxosNode.proposal_id nd) [m] = []"
    by (auto simp add: pairs_seen_single)
  moreover from False have "highest_accepted_id (fst (receive_message n nd m)) = highest_accepted_id nd
    \<and> highest_accepted_value (fst (receive_message n nd m)) = highest_accepted_value nd"
    using receive_message_best_seen_changes [of n nd m] by blast
  ultimately show ?thesis using b by (simp add: best_of_def)
next
  case True
  then have rm: "highest_accepted_id (fst (receive_message n nd m)) = highest_accepted_id (note_promise nd m)"
     "highest_accepted_value (fst (receive_message n nd m)) = highest_accepted_value (note_promise nd m)"
    by (simp_all add: receive_message_def ReceivePromiseSendAccept_def Let_def)
  show ?thesis
  proof (cases "prior_pair m")
    case None
    then have "pairs_seen (PaxosNode.proposal_id nd) [m] = []"
      by (simp add: pairs_seen_single)
    moreover from None have "highest_accepted_id (note_promise nd m) = highest_accepted_id nd
      \<and> highest_accepted_value (note_promise nd m) = highest_accepted_value nd"
      by (auto simp add: note_promise_def prior_pair_def Let_def split: option.splits)
    ultimately show ?thesis using b rm by (simp add: best_of_def)
  next
    case (Some p)
    obtain a v where p: "p = (a, v)" by (cases p)
    from Some p have m: "Message.accepted_proposal_id m = Some a" "Message.accepted_value m = Some v"
      by (auto simp add: prior_pair_def split: option.splits)
    from Some True p have ps: "pairs_seen (PaxosNode.proposal_id nd) [m] = [(a, v)]"
      by (simp add: pairs_seen_single)
    from nn ps have a0: "0 \<le> a" by simp
    have np: "highest_accepted_id (note_promise nd m) = (if a > highest_accepted_id nd then a else highest_accepted_id nd)"
      "highest_accepted_value (note_promise nd m) = (if a > highest_accepted_id nd then Some v else highest_accepted_value nd)"
      using m by (simp_all add: note_promise_def Let_def)
    show ?thesis
    proof (cases "a > highest_accepted_id nd")
      case True
      with b show ?thesis
        unfolding best_of_def rm np ps by auto
    next
      case False
      with b a0 show ?thesis
        unfolding best_of_def rm np ps by auto
    qed
  qed
qed

lemma best_of_run:
  assumes "best_of ps nd"
    and "\<forall>p \<in> set (ps @ pairs_seen (PaxosNode.proposal_id nd) ms). 0 \<le> fst p"
  shows "best_of (ps @ pairs_seen (PaxosNode.proposal_id nd) ms) (fst (receive_all n nd ms))"
  using assms
proof (induction ms arbitrary: nd ps)
  case Nil
  then show ?case by (simp add: pairs_seen_def map_filter_def)
next
  case (Cons m ms)
  let ?k = "PaxosNode.proposal_id nd"
  have split: "pairs_seen ?k (m # ms) = pairs_seen ?k [m] @ pairs_seen ?k ms"
    using pairs_seen_append [of ?k "[m]" ms] by simp
  have 1: "best_of (ps @ pairs_seen ?k [m]) (fst (receive_message n nd m))"
    using Cons.prems by (intro best_of_step) (auto simp add: split)
  have 2: "\<forall>p \<in> set ((ps @ pairs_seen ?k [m]) @
       pairs_seen (PaxosNode.proposal_id (fst (receive_message n nd m))) ms). 0 \<le> fst p"
    using Cons.prems(2) by (simp add: split receive_message_proposer_frame)
  from Cons.IH [OF 1 2] show ?case
    by (simp add: split receive_message_proposer_frame split_beta)
qed


lemma receive_all_snoc:
  "fst (receive_all n nd (ms @ [m])) = fst (receive_message n (fst (receive_all n nd ms)) m)"
  by (induction ms arbitrary: nd) (simp_all add: split_beta)

lemma best_of_after_propose: "best_of [] (fst (propose nd now own))"
  by (simp add: best_of_def propose_def)

lemma accept_broadcast_value:
  assumes "Broadcast acc ex \<in> set (snd (receive_message n nd m))" and "msg_type acc = ACCEPT"
  shows "Message.proposal_id acc = PaxosNode.proposal_id nd
    \<and> value acc = (if highest_accepted_value (fst (receive_message n nd m)) \<noteq> None
         then highest_accepted_value (fst (receive_message n nd m))
         else current_proposal_value nd)"
  using assms
  by (cases "msg_type m")
    (auto simp add: receive_message_def ReceiveProposeSendPromise_def ReceivePromiseSendAccept_def
      ReceiveAcceptSendAccepted_def mk_Message_def Let_def note_promise_def
      split: if_splits option.splits)


text \<open>
  Claim C4 (adoption rule). A promise for the current proposal that carries a prior accepted
  pair whose id exceeds \<^verbatim>\<open>highest_accepted_id\<close> makes the proposer adopt that pair. And for a
  proposer that has called \<^verbatim>\<open>propose\<close> and then handled any messages: when a delivery makes it
  broadcast ACCEPT, the message has the proposal's id, and its value is the value of a
  highest-id prior accepted pair among those carried by the promises for this proposal handled
  so far, the proposer's own value being sent only when no promise carried a pair. Prior
  accepted ids are ids of earlier proposals, that is clock readings, taken here to be
  non-negative (as they are in every run with non-negative clock readings, see the last
  section). With the pairs (3, X) and (5, Y), in either order, the value sent is Y.
\<close>

theorem highest_prior_pair_is_adopted:
  assumes run: "Broadcast acc ex \<in> set (snd (receive_message n
                   (fst (receive_all n (fst (propose nd0 now own)) ms)) m))"
    and acc: "msg_type acc = ACCEPT"
    and ids: "\<forall>p \<in> set (pairs_seen now (ms @ [m])). 0 \<le> fst p"
  shows "(msg_type m' = PROMISE \<and> Message.proposal_id m' = PaxosNode.proposal_id nd
            \<and> Message.accepted_proposal_id m' = Some a \<and> Message.accepted_value m' = Some v
            \<and> a > highest_accepted_id nd \<longrightarrow>
            highest_accepted_id (fst (receive_message n nd m')) = a
            \<and> highest_accepted_value (fst (receive_message n nd m')) = Some v)
         \<and> Message.proposal_id acc = now
         \<and> (if pairs_seen now (ms @ [m]) = [] then value acc = own
             else \<exists>p \<in> set (pairs_seen now (ms @ [m])).
                    value acc = Some (snd p)
                    \<and> (\<forall>q \<in> set (pairs_seen now (ms @ [m])). fst q \<le> fst p))"
proof -
  let ?start = "fst (propose nd0 now own)"
  let ?nd = "fst (receive_all n ?start ms)"
  let ?ps = "pairs_seen now (ms @ [m])"
  have k: "PaxosNode.proposal_id ?start = now" "current_proposal_value ?start = own"
    by (simp_all add: propose_def)
  have frame: "PaxosNode.proposal_id ?nd = now" "current_proposal_value ?nd = own"
    using receive_all_proposer_frame [of n ?start ms] k by simp_all
  have "best_of ([] @ pairs_seen (PaxosNode.proposal_id ?start) (ms @ [m]))
          (fst (receive_all n ?start (ms @ [m])))"
    using ids by (intro best_of_run best_of_after_propose) (simp add: k)
  moreover have "fst (receive_all n ?start (ms @ [m])) = fst (receive_message n ?nd m)"
    by (rule receive_all_snoc)
  ultimately have best: "best_of ?ps (fst (receive_message n ?nd m))"
    by (simp add: k)
  from accept_broadcast_value [OF run acc] frame
  have val: "Message.proposal_id acc = now"
    "value acc = (if highest_accepted_value (fst (receive_message n ?nd m)) \<noteq> None
         then highest_accepted_value (fst (receive_message n ?nd m)) else own)"
    by simp_all
  have choice: "if ?ps = [] then value acc = own
             else \<exists>p \<in> set ?ps. value acc = Some (snd p) \<and> (\<forall>q \<in> set ?ps. fst q \<le> fst p)"
  proof (cases "?ps = []")
    case True
    with best val show ?thesis by (auto simp add: best_of_def)
  next
    case False
    with best obtain w where w: "highest_accepted_value (fst (receive_message n ?nd m)) = Some w"
      "(highest_accepted_id (fst (receive_message n ?nd m)), w) \<in> set ?ps"
      "\<forall>q \<in> set ?ps. fst q \<le> highest_accepted_id (fst (receive_message n ?nd m))"
      unfolding best_of_def by blast
    from w(1) val have "value acc = Some w" by simp
    with w(2,3) False show ?thesis by force
  qed
  have adopt: "msg_type m' = PROMISE \<and> Message.proposal_id m' = PaxosNode.proposal_id nd
            \<and> Message.accepted_proposal_id m' = Some a \<and> Message.accepted_value m' = Some v
            \<and> a > highest_accepted_id nd \<longrightarrow>
            highest_accepted_id (fst (receive_message n nd m')) = a
            \<and> highest_accepted_value (fst (receive_message n nd m')) = Some v"
    by (simp add: handler_defs)
  from adopt val(1) choice show ?thesis by (intro conjI)
qed


theorem highest_prior_pair_is_adopted_witness:
  "snd (receive_message 3
     (fst (receive_all 3 (fst (propose (init_node ''p'') 9 (Some ''Z'')))
        [mk_Message PROMISE 9 ''b'' ''p'' None (Some 3) (Some ''X'')]))
     (mk_Message PROMISE 9 ''c'' ''p'' None (Some 5) (Some ''Y'')))
   = [Broadcast (mk_Message ACCEPT 9 ''p'' ''broadcast'' (Some ''Y'') None None) (Some ''p'')]
   \<and> pairs_seen 9 [mk_Message PROMISE 9 ''b'' ''p'' None (Some 3) (Some ''X''),
        mk_Message PROMISE 9 ''c'' ''p'' None (Some 5) (Some ''Y'')] = [(3, ''X''), (5, ''Y'')]
   \<and> value (mk_Message ACCEPT 9 ''p'' ''broadcast'' (Some ''Y'') None None) = Some ''Y''
   \<and> snd (receive_message 3
     (fst (receive_all 3 (fst (propose (init_node ''p'') 9 (Some ''Z'')))
        [mk_Message PROMISE 9 ''c'' ''p'' None (Some 5) (Some ''Y'')]))
     (mk_Message PROMISE 9 ''b'' ''p'' None (Some 3) (Some ''X'')))
   = [Broadcast (mk_Message ACCEPT 9 ''p'' ''broadcast'' (Some ''Y'') None None) (Some ''p'')]"
proof -
  let ?P1 = "mk_Message PROMISE 9 ''b'' ''p'' None (Some 3) (Some ''X'') :: string Message"
  let ?P2 = "mk_Message PROMISE 9 ''c'' ''p'' None (Some 5) (Some ''Y'') :: string Message"
  let ?ACC = "mk_Message ACCEPT 9 ''p'' ''broadcast'' (Some ''Y'') None None :: string Message"
  have run: "snd (receive_message 3
     (fst (receive_all 3 (fst (propose (init_node ''p'') 9 (Some ''Z''))) [?P1])) ?P2)
   = [Broadcast ?ACC (Some ''p'')]"
    by (simp add: handler_defs propose_def init_node_def mk_Message_def fcard_finsert_if)
  have rev: "snd (receive_message 3
     (fst (receive_all 3 (fst (propose (init_node ''p'') 9 (Some ''Z''))) [?P2])) ?P1)
   = [Broadcast ?ACC (Some ''p'')]"
    by (simp add: handler_defs propose_def init_node_def mk_Message_def fcard_finsert_if)
  have pairs: "pairs_seen 9 ([?P1] @ [?P2]) = [(3, ''X''), (5, ''Y'')]"
    by (simp add: pairs_seen_def map_filter_def prior_pair_def mk_Message_def)
  have mem: "Broadcast ?ACC (Some ''p'') \<in> set (snd (receive_message 3
     (fst (receive_all 3 (fst (propose (init_node ''p'') 9 (Some ''Z''))) [?P1])) ?P2))"
    by (simp only: run) simp
  have acc: "msg_type ?ACC = ACCEPT" by (simp add: mk_Message_def)
  have ids: "\<forall>p \<in> set (pairs_seen 9 ([?P1] @ [?P2])). 0 \<le> fst p"
    by (simp only: pairs) simp
  have "value ?ACC = Some ''Y''"
    using highest_prior_pair_is_adopted [OF mem acc ids, THEN conjunct2, THEN conjunct2]
    by (simp only: pairs) simp
  with run rev pairs show ?thesis by simp
qed


lemma note_promise_frame:
  "promises_received (note_promise nd m) = finsert (sender_id m) (promises_received nd)"
  "PaxosNode.proposal_id (note_promise nd m) = PaxosNode.proposal_id nd"
  "promised_proposal_id (note_promise nd m) = promised_proposal_id nd"
  "accept_counts (note_promise nd m) = accept_counts nd"
  "learned_values (note_promise nd m) = learned_values nd"
  "node_id (note_promise nd m) = node_id nd"
  by (simp_all add: note_promise_def Let_def split: option.splits)

lemma promise_step_cases:
  assumes "msg_type m = PROMISE"
  obtains (ignore) "receive_message N nd m = (nd, [])"
      "Message.proposal_id m \<noteq> PaxosNode.proposal_id nd"
  | (count) "receive_message N nd m = (note_promise nd m, [])"
      "Message.proposal_id m = PaxosNode.proposal_id nd"
  | (quorum) u where
      "receive_message N nd m =
         ((note_promise nd m)\<lparr>promises_received := {||}\<rparr>,
          [Broadcast (mk_Message ACCEPT (PaxosNode.proposal_id nd) (node_id nd) ''broadcast''
             u None None) (Some (node_id nd))])"
      "Message.proposal_id m = PaxosNode.proposal_id nd"
      "N div 2 + 1 \<le> fcard (finsert (sender_id m) (promises_received nd))"
proof (cases "Message.proposal_id m = PaxosNode.proposal_id nd")
  case False
  with assms have "receive_message N nd m = (nd, [])"
    by (simp add: receive_message_def ReceivePromiseSendAccept_def)
  then show ?thesis using False by (rule ignore)
next
  case True
  show ?thesis
  proof (cases "N div 2 + 1 \<le> fcard (finsert (sender_id m) (promises_received nd))")
    case False
    with True assms have "receive_message N nd m = (note_promise nd m, [])"
      by (simp add: receive_message_def ReceivePromiseSendAccept_def note_promise_frame Let_def)
    then show ?thesis using True by (rule count)
  next
    case q: True
    with True assms have "receive_message N nd m =
         ((note_promise nd m)\<lparr>promises_received := {||}\<rparr>,
          [Broadcast (mk_Message ACCEPT (PaxosNode.proposal_id nd) (node_id nd) ''broadcast''
             (if highest_accepted_value (note_promise nd m) \<noteq> None
              then highest_accepted_value (note_promise nd m)
              else current_proposal_value (note_promise nd m)) None None) (Some (node_id nd))])"
      by (simp add: receive_message_def ReceivePromiseSendAccept_def note_promise_frame Let_def)
    then show ?thesis using True q by (rule quorum)
  qed
qed

subsection \<open>A handler up to its first call to the network\<close>

text \<open>A handler that has returned has done what it had done at its first call to the network
  and, if line 174 was still to run, has emptied \<^verbatim>\<open>promises_received\<close>.\<close>

lemma until_sends_finish:
  assumes "receive_message_until_sends n nd m = (nd', effs, c)"
  shows "receive_message n nd m = ((if c then nd'\<lparr>promises_received := {||}\<rparr> else nd'), effs)"
proof (cases "msg_type m")
  case PREPARE
  with assms show ?thesis
    by (auto simp add: receive_message_until_sends_def receive_message_def)
next
  case PROMISE
  with assms have "ReceivePromiseSendAccept_until_broadcast n nd m = (nd', effs, c)"
    by (simp add: receive_message_until_sends_def)
  then have "ReceivePromiseSendAccept n nd m
      = ((if c then nd'\<lparr>promises_received := {||}\<rparr> else nd'), effs)"
    by (auto simp add: ReceivePromiseSendAccept_until_broadcast_def ReceivePromiseSendAccept_def
        Let_def split: if_splits)
  with PROMISE show ?thesis by (simp add: receive_message_def)
next
  case ACCEPT
  with assms show ?thesis
    by (auto simp add: receive_message_until_sends_def receive_message_def)
next
  case ACCEPTED
  with assms show ?thesis
    by (auto simp add: receive_message_until_sends_def receive_message_def)
qed

lemma until_sends_frame:
  assumes "receive_message_until_sends n nd m = (nd', effs, c)"
  shows "node_id nd' = node_id (fst (receive_message n nd m))"
    and "PaxosNode.proposal_id nd' = PaxosNode.proposal_id (fst (receive_message n nd m))"
    and "PaxosNode.accepted_proposal_id nd'
           = PaxosNode.accepted_proposal_id (fst (receive_message n nd m))"
    and "effs = snd (receive_message n nd m)"
  by (simp_all add: until_sends_finish [OF assms])

section \<open>Properties of the network\<close>

lemma copies_keys:
  "copies net m ex =
     map (\<lambda>nid. m\<lparr>receiver_id := nid\<rparr>) (filter (\<lambda>nid. Some nid \<noteq> ex) (map fst (nodes net)))"
  by (simp add: copies_def filter_map comp_def split_def)

lemma outgoing_keys:
  assumes "map fst (nodes net') = map fst (nodes net)"
  shows "outgoing net' e = outgoing net e"
proof -
  have "set (map fst (nodes net')) = set (map fst (nodes net))"
    using assms by simp
  then have "fst ` set (nodes net') = fst ` set (nodes net)"
    by (simp only: set_map)
  then show ?thesis using assms
    by (cases e) (simp_all add: outgoing_def copies_keys map_of_eq_None_iff)
qed

lemma send_message_eq: "send_message net m = map Call (outgoing net (Send m))"
  by (simp add: send_message_def outgoing_def)

lemma copies_receivers:
  "c \<in> set (copies net m ex) \<Longrightarrow> map_of (nodes net) (receiver_id c) \<noteq> None"
proof -
  assume "c \<in> set (copies net m ex)"
  then obtain nid where "nid \<in> set (map fst (nodes net))" "c = m\<lparr>receiver_id := nid\<rparr>"
    by (auto simp add: copies_keys)
  then have "receiver_id c \<in> fst ` set (nodes net)" by simp
  then show ?thesis by (simp add: map_of_eq_None_iff)
qed

lemma concat_send_message:
  "\<forall>c \<in> set cs. map_of (nodes net) (receiver_id c) \<noteq> None \<Longrightarrow>
   concat (map (send_message net) cs) = map Call cs"
  by (induction cs) (simp_all add: send_message_def)

lemma broadcast_eq: "broadcast net m ex = map Call (outgoing net (Broadcast m ex))"
  unfolding broadcast_def outgoing_def
  by (simp add: concat_send_message copies_receivers)

lemma perform_eq: "perform net es = map Call (concat (map (outgoing net) es))"
  by (induction net es rule: perform.induct) (simp_all add: send_message_eq broadcast_eq)

lemma update_keys_present:
  "map_of al r = Some x \<Longrightarrow> map fst (AList.update r y al) = map fst al"
  by (induction al) (auto split: if_splits)

lemma resume_cases:
  obtains (idle) "resume net t = net"
  | (drop) rest where "t < length (threads net)" "set rest \<subseteq> set (threads net ! t)"
       "resume net t = net\<lparr>threads := (threads net)[t := rest]\<rparr>"
  | (handle) m rest nd nd' effs c where "t < length (threads net)"
      "threads net ! t = Call m # rest"
      "map_of (nodes net) (receiver_id m) = Some nd"
      "receive_message_until_sends (length (nodes net)) nd m = (nd', effs, c)"
      "resume net t =
         net\<lparr>nodes := AList.update (receiver_id m) nd' (nodes net),
             threads := (threads net)
               [t := map Call (concat (map (outgoing net) effs))
                     @ (if c then [Clear (receiver_id m)] else []) @ rest]\<rparr>"
  | (clear) nid rest nd where "t < length (threads net)"
      "threads net ! t = Clear nid # rest"
      "map_of (nodes net) nid = Some nd"
      "resume net t =
         net\<lparr>nodes := AList.update nid (nd\<lparr>promises_received := {||}\<rparr>) (nodes net),
             threads := (threads net)[t := rest]\<rparr>"
proof (cases "t < length (threads net)")
  case False
  then have "resume net t = net" by (simp add: resume_def)
  then show ?thesis by (rule idle)
next
  case True
  show ?thesis
  proof (cases "threads net ! t")
    case Nil
    with True have "resume net t = net" by (simp add: resume_def)
    then show ?thesis by (rule idle)
  next
    case (Cons w rest)
    then have sub: "set rest \<subseteq> set (threads net ! t)" by auto
    show ?thesis
    proof (cases w)
      case (Call m)
      show ?thesis
      proof (cases "map_of (nodes net) (receiver_id m)")
        case None
        with True Cons Call have "resume net t = net\<lparr>threads := (threads net)[t := rest]\<rparr>"
          by (simp add: resume_def)
        with True sub show ?thesis by (rule drop)
      next
        case (Some nd)
        obtain nd' effs c where
          r: "receive_message_until_sends (length (nodes net)) nd m = (nd', effs, c)"
          by (cases "receive_message_until_sends (length (nodes net)) nd m") auto
        have "outgoing (net\<lparr>nodes := AList.update (receiver_id m) nd' (nodes net)\<rparr>)
            = outgoing net"
          using Some by (intro ext outgoing_keys) (simp add: update_keys_present)
        with True Cons Call Some r have "resume net t =
           net\<lparr>nodes := AList.update (receiver_id m) nd' (nodes net),
               threads := (threads net)
                 [t := map Call (concat (map (outgoing net) effs))
                       @ (if c then [Clear (receiver_id m)] else []) @ rest]\<rparr>"
          by (simp add: resume_def perform_eq)
        with True Cons Call Some r show ?thesis by (intro handle [of m rest nd nd' effs c]) simp_all
      qed
    next
      case (Clear nid)
      show ?thesis
      proof (cases "map_of (nodes net) nid")
        case None
        with True Cons Clear have "resume net t = net\<lparr>threads := (threads net)[t := rest]\<rparr>"
          by (simp add: resume_def)
        with True sub show ?thesis by (rule drop)
      next
        case (Some nd)
        with True Cons Clear have "resume net t =
           net\<lparr>nodes := AList.update nid (nd\<lparr>promises_received := {||}\<rparr>) (nodes net),
               threads := (threads net)[t := rest]\<rparr>"
          by (simp add: resume_def)
        with True Cons Clear Some show ?thesis by (intro clear [of nid rest nd]) simp_all
      qed
    qed
  qed
qed

lemma start_proposal_eq:
  assumes "map_of (nodes net) nid = Some nd"
  shows "start_proposal net nid now v =
     net\<lparr>nodes := AList.update nid (fst (propose nd now v)) (nodes net),
         threads := threads net
           @ [map Call (concat (map (outgoing net) (snd (propose nd now v))))]\<rparr>"
proof -
  have "outgoing (net\<lparr>nodes := AList.update nid (fst (propose nd now v)) (nodes net)\<rparr>)
      = outgoing net"
    using assms by (intro ext outgoing_keys) (simp add: update_keys_present)
  then show ?thesis using assms
    by (simp add: start_proposal_def perform_eq split_beta Let_def)
qed

lemma receive_message_node_id: "node_id (fst (receive_message n nd m)) = node_id nd"
  by (cases "msg_type m") (simp_all add: handler_defs split: option.splits)

lemma set_update_subset: "set (AList.update r y al) \<subseteq> insert (r, y) (set al)"
  by (induction al) auto

lemma well_keyed_update:
  assumes "well_keyed net" and "map_of (nodes net) r = Some nd" and "node_id nd' = node_id nd"
  shows "well_keyed (net\<lparr>nodes := AList.update r nd' (nodes net), threads := ths\<rparr>)"
proof -
  from assms(2) have "(r, nd) \<in> set (nodes net)" by (rule map_of_SomeD)
  with assms(1) have "node_id nd = r" by (auto simp add: well_keyed_def)
  with assms(3) have "node_id nd' = r" by simp
  moreover have "set (AList.update r nd' (nodes net)) \<subseteq> insert (r, nd') (set (nodes net))"
    by (rule set_update_subset)
  ultimately show ?thesis using assms(1)
    by (auto simp add: well_keyed_def distinct_update)
qed

lemma well_keyed_create: "well_keyed net \<Longrightarrow> well_keyed (create_node net nid)"
  using set_update_subset [of nid "init_node nid" "nodes net"]
  by (auto simp add: well_keyed_def create_node_def add_node_def distinct_update init_node_def)

lemma well_keyed_fold:
  "well_keyed net \<Longrightarrow> well_keyed (fold (\<lambda>nid net. create_node net nid) ids net)"
  by (induction ids arbitrary: net) (simp_all add: well_keyed_create)

lemma well_keyed_initial: "well_keyed (initial_network ids)"
  unfolding initial_network_def
  by (rule well_keyed_fold) (simp add: well_keyed_def empty_network_def)

lemma well_keyed_resume: "well_keyed net \<Longrightarrow> well_keyed (resume net t)"
proof (cases rule: resume_cases [of net t])
  case idle
  assume "well_keyed net"
  with idle show ?thesis by simp
next
  case (drop rest)
  assume "well_keyed net"
  with drop show ?thesis by (simp add: well_keyed_def)
next
  case (handle m rest nd nd' effs c)
  have "node_id nd' = node_id nd"
    using until_sends_frame(1) [OF handle(4)] by (simp add: receive_message_node_id)
  moreover assume "well_keyed net"
  ultimately show ?thesis
    unfolding handle(5) using handle(3) by (intro well_keyed_update [of net _ nd]) simp_all
next
  case (clear nid rest nd)
  assume "well_keyed net"
  then show ?thesis
    unfolding clear(4) using clear(3) by (intro well_keyed_update [of net _ nd]) simp_all
qed

lemma well_keyed_start_proposal: "well_keyed net \<Longrightarrow> well_keyed (start_proposal net nid now v)"
proof (cases "map_of (nodes net) nid")
  case None
  assume "well_keyed net"
  with None show ?thesis by (simp add: start_proposal_def)
next
  case (Some nd)
  assume "well_keyed net"
  then show ?thesis
    unfolding start_proposal_eq [OF Some] using Some
    by (rule well_keyed_update) (simp add: propose_def)
qed

lemma reachable_well_keyed: "reachable ids net \<Longrightarrow> well_keyed net"
  by (induction rule: reachable.induct)
    (simp_all add: well_keyed_initial well_keyed_start_proposal well_keyed_resume)

lemma run_snoc: "run ids (evs @ [e]) = step (run ids evs) e"
  by (simp add: run_def)

lemma run_reachable: "reachable ids (run ids evs)"
proof (induction evs rule: rev_induct)
  case Nil
  show ?case by (simp add: run_def reachable.start)
next
  case (snoc e evs)
  then show ?case
    by (cases e) (simp_all add: run_snoc reachable.proposal reachable.progress)
qed

text \<open>
  Line 174 runs when the broadcast before it has returned. Three nodes; thread 0 proposes on
  \<open>a\<close> at clock reading 10 and finds a majority; thread 1 then proposes on \<open>a\<close> at clock reading
  20, and the promise of \<open>b\<close> for id 20 comes back to \<open>a\<close>. Thread 0 makes the calls of its
  ACCEPT broadcast and then runs line 174, which removes that promise. The promise of \<open>c\<close> for
  id 20 is then alone in the set, and thread 1 ends with no ACCEPT broadcast for id 20.
\<close>

lemma late_clear_removes_a_promise:
  "threads (run [''a'', ''b'', ''c'']
      ([Propose ''a'' 10 (Some ''alpha'')] @ replicate 4 (Resume 0)
       @ [Propose ''a'' 20 (Some ''beta'')] @ replicate 2 (Resume 1) @ replicate 4 (Resume 0)))
     = [[Clear ''a''], [Call (mk_Message PREPARE 20 ''a'' ''c'' None None None)]]
   \<and> node_field (run [''a'', ''b'', ''c'']
      ([Propose ''a'' 10 (Some ''alpha'')] @ replicate 4 (Resume 0)
       @ [Propose ''a'' 20 (Some ''beta'')] @ replicate 2 (Resume 1) @ replicate 4 (Resume 0)))
        ''a'' promises_received
     = Some {|''b''|}
   \<and> node_field (run [''a'', ''b'', ''c'']
      ([Propose ''a'' 10 (Some ''alpha'')] @ replicate 4 (Resume 0)
       @ [Propose ''a'' 20 (Some ''beta'')] @ replicate 2 (Resume 1) @ replicate 4 (Resume 0)
       @ [Resume 0]))
        ''a'' promises_received
     = Some {||}
   \<and> threads (run [''a'', ''b'', ''c'']
      ([Propose ''a'' 10 (Some ''alpha'')] @ replicate 4 (Resume 0)
       @ [Propose ''a'' 20 (Some ''beta'')] @ replicate 2 (Resume 1) @ replicate 4 (Resume 0)
       @ [Resume 0, Resume 1, Resume 1]))
     = [[], []]
   \<and> node_field (run [''a'', ''b'', ''c'']
      ([Propose ''a'' 10 (Some ''alpha'')] @ replicate 4 (Resume 0)
       @ [Propose ''a'' 20 (Some ''beta'')] @ replicate 2 (Resume 1) @ replicate 4 (Resume 0)
       @ [Resume 0, Resume 1, Resume 1]))
        ''a'' promises_received
     = Some {|''c''|}"
  by code_simp

text \<open>
  Claim C3, amended. When a node of a run handles an ACCEPT message whose proposal id is at
  least its \<^verbatim>\<open>promised_proposal_id\<close>, the thread that handed the message over next makes one
  call with an ACCEPTED message with that id and value, sent by the accepting node, for every
  member other than the accepting node itself, in the order of the membership, and none for
  the accepting node (\<^verbatim>\<open>exclude=self.node_id\<close>), before it goes on with the work it had; the
  member ids are distinct, so each other member gets exactly one copy.
\<close>

theorem accepted_goes_to_all_others:
  assumes "reachable ids net" and "t < length (threads net)"
    and "threads net ! t = Call m # rest"
    and "msg_type m = ACCEPT"
    and "map_of (nodes net) (receiver_id m) = Some nd"
    and "promised_proposal_id nd \<le> Message.proposal_id m"
  shows "threads (resume net t) ! t =
           map (\<lambda>nid. Call (mk_Message ACCEPTED (Message.proposal_id m)
                     (receiver_id m) nid (value m) None None))
               (filter (\<lambda>nid. nid \<noteq> receiver_id m) (map fst (nodes net)))
           @ rest
         \<and> distinct (map fst (nodes net))"
proof -
  from assms(1) have wk: "well_keyed net" by (rule reachable_well_keyed)
  from assms(5) have "(receiver_id m, nd) \<in> set (nodes net)" by (rule map_of_SomeD)
  with wk have id: "node_id nd = receiver_id m" by (auto simp add: well_keyed_def)
  have rm: "receive_message_until_sends (length (nodes net)) nd m =
      (nd\<lparr>PaxosNode.accepted_proposal_id := Message.proposal_id m,
          PaxosNode.accepted_value := value m\<rparr>,
       [Broadcast (mk_Message ACCEPTED (Message.proposal_id m) (receiver_id m)
          ''broadcast'' (value m) None None) (Some (receiver_id m))],
       False)"
    using assms(4,6) id by (simp add: receive_message_until_sends_def ReceiveAcceptSendAccepted_def)
  have out: "outgoing net (Broadcast (mk_Message ACCEPTED (Message.proposal_id m)
          (receiver_id m) ''broadcast'' (value m) None None) (Some (receiver_id m)))
      = map (\<lambda>nid. mk_Message ACCEPTED (Message.proposal_id m)
                     (receiver_id m) nid (value m) None None)
               (filter (\<lambda>nid. nid \<noteq> receiver_id m) (map fst (nodes net)))"
    by (simp add: outgoing_def copies_keys mk_Message_def)
  have "outgoing (net\<lparr>nodes := AList.update (receiver_id m)
          (nd\<lparr>PaxosNode.accepted_proposal_id := Message.proposal_id m,
              PaxosNode.accepted_value := value m\<rparr>) (nodes net)\<rparr>)
      = outgoing net"
    using assms(5) by (intro ext outgoing_keys) (simp add: update_keys_present)
  with assms(2,3,5) rm out have "threads (resume net t) ! t =
           map (\<lambda>nid. Call (mk_Message ACCEPTED (Message.proposal_id m)
                     (receiver_id m) nid (value m) None None))
               (filter (\<lambda>nid. nid \<noteq> receiver_id m) (map fst (nodes net)))
           @ rest"
    by (simp add: resume_def perform_eq comp_def)
  with wk show ?thesis by (simp add: well_keyed_def)
qed

theorem accepted_goes_to_all_others_witness:
  "reachable [''a'', ''b'', ''c''] (run [''a'', ''b'', ''c'']
      [Propose ''a'' 1 (Some ''alpha''), Resume 0, Resume 0, Resume 0, Resume 0])
   \<and> threads (run [''a'', ''b'', ''c'']
      [Propose ''a'' 1 (Some ''alpha''), Resume 0, Resume 0, Resume 0, Resume 0]) ! 0
     = [Call (mk_Message ACCEPT 1 ''a'' ''b'' (Some ''alpha'') None None),
        Call (mk_Message ACCEPT 1 ''a'' ''c'' (Some ''alpha'') None None),
        Clear ''a'']
   \<and> threads (resume (run [''a'', ''b'', ''c'']
      [Propose ''a'' 1 (Some ''alpha''), Resume 0, Resume 0, Resume 0, Resume 0]) 0) ! 0
     = [Call (mk_Message ACCEPTED 1 ''b'' ''a'' (Some ''alpha'') None None),
        Call (mk_Message ACCEPTED 1 ''b'' ''c'' (Some ''alpha'') None None),
        Call (mk_Message ACCEPT 1 ''a'' ''c'' (Some ''alpha'') None None),
        Clear ''a'']"
proof -
  let ?net = "run [''a'', ''b'', ''c'']
      [Propose ''a'' 1 (Some ''alpha''), Resume 0, Resume 0, Resume 0, Resume 0]"
  let ?m = "mk_Message ACCEPT 1 ''a'' ''b'' (Some ''alpha'') None None :: string Message"
  let ?rest = "[Call (mk_Message ACCEPT 1 ''a'' ''c'' (Some ''alpha'') None None),
        Clear ''a''] :: string work list"
  have r: "reachable [''a'', ''b'', ''c''] ?net" by (rule run_reachable)
  have i: "0 < length (threads ?net)" by code_simp
  have th: "threads ?net ! 0 = Call ?m # ?rest" by code_simp
  have t: "msg_type ?m = ACCEPT" by (simp add: mk_Message_def)
  have rcv: "receiver_id ?m = ''b''" by (simp add: mk_Message_def)
  have keys: "map fst (nodes ?net) = [''a'', ''b'', ''c'']" by code_simp
  then have "''b'' \<in> fst ` set (nodes ?net)"
    by (simp only: set_map [symmetric]) simp
  then obtain nd where nd: "map_of (nodes ?net) ''b'' = Some nd"
    using map_of_eq_None_iff [of "nodes ?net" "''b''"] by (cases "map_of (nodes ?net) ''b''") auto
  have "promised_proposal_id (the (map_of (nodes ?net) ''b'')) \<le> Message.proposal_id ?m"
    by code_simp
  with nd have p: "promised_proposal_id nd \<le> Message.proposal_id ?m"
    by simp
  from nd rcv have nd': "map_of (nodes ?net) (receiver_id ?m) = Some nd"
    by simp
  from accepted_goes_to_all_others [OF r i th t nd' p]
  have "threads (resume ?net 0) ! 0
     = [Call (mk_Message ACCEPTED 1 ''b'' ''a'' (Some ''alpha'') None None),
        Call (mk_Message ACCEPTED 1 ''b'' ''c'' (Some ''alpha'') None None),
        Call (mk_Message ACCEPT 1 ''a'' ''c'' (Some ''alpha'') None None),
        Clear ''a'']"
    by (simp add: keys mk_Message_def)
  with r th show ?thesis by (intro conjI) simp_all
qed

text \<open>
  Claim C3 as stated fails. In the run of three nodes where \<open>a\<close> proposes and both promises
  have come back, the thread has the ACCEPT calls with id 1 for \<open>b\<close> and \<open>c\<close> to make, and the
  promised id of both is 1; after \<open>b\<close> has handled its ACCEPT, the ACCEPTED calls of \<open>b\<close> that
  the thread makes are addressed to \<open>a\<close> and \<open>c\<close>, and none to \<open>b\<close> itself.
\<close>

theorem accepted_skips_the_acceptor:
  "threads (run [''a'', ''b'', ''c'']
      [Propose ''a'' 1 (Some ''alpha''), Resume 0, Resume 0, Resume 0, Resume 0])
     = [[Call (mk_Message ACCEPT 1 ''a'' ''b'' (Some ''alpha'') None None),
         Call (mk_Message ACCEPT 1 ''a'' ''c'' (Some ''alpha'') None None),
         Clear ''a'']]
   \<and> map (promised_proposal_id \<circ> snd) (nodes (run [''a'', ''b'', ''c'']
      [Propose ''a'' 1 (Some ''alpha''), Resume 0, Resume 0, Resume 0, Resume 0]))
     = [- 1, 1, 1]
   \<and> threads (run [''a'', ''b'', ''c'']
      [Propose ''a'' 1 (Some ''alpha''), Resume 0, Resume 0, Resume 0, Resume 0, Resume 0])
     = [[Call (mk_Message ACCEPTED 1 ''b'' ''a'' (Some ''alpha'') None None),
         Call (mk_Message ACCEPTED 1 ''b'' ''c'' (Some ''alpha'') None None),
         Call (mk_Message ACCEPT 1 ''a'' ''c'' (Some ''alpha'') None None),
         Clear ''a'']]"
  by code_simp

section \<open>Two values learned for one proposal id\<close>

text \<open>
  The run in which one node proposes twice at one clock reading, stage by stage. The majority of five nodes is three.

  After \<open>first_round\<close>, thread 0 is asleep in the first call of the ACCEPT broadcast for id 1
  with value \<open>w\<close>; after it come line 174 and the PREPARE for \<open>d\<close>.
\<close>

lemma first_round_state:
  "threads (run [''p'', ''a'', ''b'', ''c'', ''d''] first_round)
     = [[Call (mk_Message ACCEPT 1 ''p'' ''a'' (Some ''w'') None None),
         Call (mk_Message ACCEPT 1 ''p'' ''b'' (Some ''w'') None None),
         Call (mk_Message ACCEPT 1 ''p'' ''c'' (Some ''w'') None None),
         Call (mk_Message ACCEPT 1 ''p'' ''d'' (Some ''w'') None None),
         Clear ''p'',
         Call (mk_Message PREPARE 1 ''p'' ''d'' None None None)]]
   \<and> map (promised_proposal_id \<circ> snd) (nodes (run [''p'', ''a'', ''b'', ''c'', ''d''] first_round))
     = [- 1, 1, 1, 1, - 1]"
  by code_simp

text \<open>
  After \<open>second_round\<close>, node \<open>p\<close> has id 2 and own value \<open>y\<close>; \<open>a\<close>, \<open>b\<close> and \<open>c\<close> have promised
  id 2 to thread 2, none of them has accepted anything, and thread 2 is asleep in the first
  call of the ACCEPT broadcast for id 2 with value \<open>y\<close>. Line 174 has not run on thread 2, so
  \<^verbatim>\<open>promises_received\<close> of \<open>p\<close> still holds the three promises. Thread 1 has made no call yet.
\<close>

lemma second_round_state:
  "threads (run [''p'', ''a'', ''b'', ''c'', ''d''] second_round) ! 2
     = [Call (mk_Message ACCEPT 2 ''p'' ''a'' (Some ''y'') None None),
        Call (mk_Message ACCEPT 2 ''p'' ''b'' (Some ''y'') None None),
        Call (mk_Message ACCEPT 2 ''p'' ''c'' (Some ''y'') None None),
        Call (mk_Message ACCEPT 2 ''p'' ''d'' (Some ''y'') None None),
        Clear ''p'',
        Call (mk_Message PREPARE 2 ''p'' ''d'' None None None)]
   \<and> threads (run [''p'', ''a'', ''b'', ''c'', ''d''] second_round) ! 1
     = [Call (mk_Message PREPARE 2 ''p'' ''a'' None None None),
        Call (mk_Message PREPARE 2 ''p'' ''b'' None None None),
        Call (mk_Message PREPARE 2 ''p'' ''c'' None None None),
        Call (mk_Message PREPARE 2 ''p'' ''d'' None None None)]
   \<and> node_field (run [''p'', ''a'', ''b'', ''c'', ''d''] second_round) ''p'' PaxosNode.proposal_id
     = Some 2
   \<and> node_field (run [''p'', ''a'', ''b'', ''c'', ''d''] second_round) ''p'' promises_received
     = Some {|''a'', ''b'', ''c''|}
   \<and> map (promised_proposal_id \<circ> snd) (nodes (run [''p'', ''a'', ''b'', ''c'', ''d''] second_round))
     = [- 1, 2, 2, 2, - 1]
   \<and> map (PaxosNode.accepted_proposal_id \<circ> snd)
       (nodes (run [''p'', ''a'', ''b'', ''c'', ''d''] second_round))
     = [- 1, - 1, - 1, - 1, - 1]"
  by code_simp

text \<open>
  After \<open>late_accept\<close>, the ACCEPT for id 1 has been refused by \<open>a\<close>, \<open>b\<close> and \<open>c\<close>, which have
  promised id 2, and accepted by \<open>d\<close>, which has not: \<open>d\<close> alone holds the accepted pair
  \<open>(1, w)\<close>.
\<close>

lemma late_accept_state:
  "map (PaxosNode.accepted_proposal_id \<circ> snd)
       (nodes (run [''p'', ''a'', ''b'', ''c'', ''d''] late_accept))
     = [- 1, - 1, - 1, - 1, 1]
   \<and> node_field (run [''p'', ''a'', ''b'', ''c'', ''d''] late_accept) ''d'' PaxosNode.accepted_value
     = Some (Some ''w'')
   \<and> map (promised_proposal_id \<circ> snd) (nodes (run [''p'', ''a'', ''b'', ''c'', ''d''] late_accept))
     = [- 1, 2, 2, 2, - 1]"
  by code_simp

text \<open>
  After \<open>second_quorum\<close>, the PREPARE of thread 1 has been refused by \<open>a\<close>, \<open>b\<close> and \<open>c\<close> and
  answered by \<open>d\<close> with a promise that carries the pair \<open>(1, w)\<close>. Node \<open>p\<close> has added \<open>d\<close> to
  the three promises that line 174 has not yet removed, has found a majority a second time
  for id 2, and has adopted \<open>w\<close>: thread 1 is asleep in the first call of an ACCEPT broadcast
  for id 2 with value \<open>w\<close>, while thread 2 is still asleep in the first call of the ACCEPT
  broadcast for id 2 with value \<open>y\<close>.
\<close>

lemma second_quorum_state:
  "threads (run [''p'', ''a'', ''b'', ''c'', ''d''] second_quorum) ! 1
     = [Call (mk_Message ACCEPT 2 ''p'' ''a'' (Some ''w'') None None),
        Call (mk_Message ACCEPT 2 ''p'' ''b'' (Some ''w'') None None),
        Call (mk_Message ACCEPT 2 ''p'' ''c'' (Some ''w'') None None),
        Call (mk_Message ACCEPT 2 ''p'' ''d'' (Some ''w'') None None),
        Clear ''p'']
   \<and> threads (run [''p'', ''a'', ''b'', ''c'', ''d''] second_quorum) ! 2
     = [Call (mk_Message ACCEPT 2 ''p'' ''a'' (Some ''y'') None None),
        Call (mk_Message ACCEPT 2 ''p'' ''b'' (Some ''y'') None None),
        Call (mk_Message ACCEPT 2 ''p'' ''c'' (Some ''y'') None None),
        Call (mk_Message ACCEPT 2 ''p'' ''d'' (Some ''y'') None None),
        Clear ''p'',
        Call (mk_Message PREPARE 2 ''p'' ''d'' None None None)]
   \<and> node_field (run [''p'', ''a'', ''b'', ''c'', ''d''] second_quorum) ''p'' promises_received
     = Some {|''a'', ''b'', ''c'', ''d''|}
   \<and> node_field (run [''p'', ''a'', ''b'', ''c'', ''d''] second_quorum) ''p'' highest_accepted_id
     = Some 1
   \<and> node_field (run [''p'', ''a'', ''b'', ''c'', ''d''] second_quorum) ''p'' highest_accepted_value
     = Some (Some ''w'')"
  by code_simp

text \<open>
  Claim C1 (no-fork safety) does not hold of the program. At the end of \<open>fork_run\<close>, node \<open>p\<close>
  has learned \<open>w\<close> for proposal id 2 and node \<open>a\<close> has learned \<open>y\<close> for proposal id 2; on node
  \<open>p\<close> the ACCEPTED senders recorded for id 2 are \<open>a\<close>, \<open>b\<close> and \<open>c\<close> under value \<open>w\<close> and
  again \<open>a\<close>, \<open>b\<close> and \<open>c\<close> under value \<open>y\<close>, a majority of the five nodes each time.

  Two lines of the program combine in this run. Line 89 gives the second and the third
  proposal of \<open>p\<close> the same id 2, so the promises of \<open>a\<close>, \<open>b\<close>, \<open>c\<close> and \<open>d\<close> for id 2 all count
  for the proposal that \<open>p\<close> holds. Line 174, whose comment says that it is there to avoid
  sending multiple accepts, runs when the ACCEPT broadcast of line 170 has returned: the
  promise of \<open>d\<close>, which the other thread hands over before that, finds the three earlier
  promises still in \<^verbatim>\<open>promises_received\<close> and starts a second ACCEPT broadcast for id 2, with
  the value that this promise carries.
\<close>

theorem two_values_learned_for_one_id:
  "node_field (run [''p'', ''a'', ''b'', ''c'', ''d''] fork_run) ''p''
       (\<lambda>nd. learned_values nd 2) = Some (Some (Some ''w''))
   \<and> node_field (run [''p'', ''a'', ''b'', ''c'', ''d''] fork_run) ''a''
       (\<lambda>nd. learned_values nd 2) = Some (Some (Some ''y''))
   \<and> node_field (run [''p'', ''a'', ''b'', ''c'', ''d''] fork_run) ''p''
       (\<lambda>nd. map_option (\<lambda>by_value. by_value (Some ''w'')) (accept_counts nd 2))
     = Some (Some (Some {|''a'', ''b'', ''c''|}))
   \<and> node_field (run [''p'', ''a'', ''b'', ''c'', ''d''] fork_run) ''p''
       (\<lambda>nd. map_option (\<lambda>by_value. by_value (Some ''y'')) (accept_counts nd 2))
     = Some (Some (Some {|''a'', ''b'', ''c''|}))
   \<and> majority_threshold (length (nodes (run [''p'', ''a'', ''b'', ''c'', ''d''] fork_run))) = 3"
  by code_simp

section \<open>Ids in a run\<close>

text \<open>
  In every run whose clock readings are not negative, every message that a thread has still
  to hand over has a non-negative proposal id and, when it carries a prior accepted id, a
  non-negative one: the promises that reach a proposer meet the condition on prior accepted
  ids used for the adoption rule above.
\<close>

lemma outgoing_ids:
  assumes "m' \<in> set (outgoing net e)"
  shows "\<exists>m ex. (e = Send m \<or> e = Broadcast m ex)
     \<and> Message.proposal_id m' = Message.proposal_id m
     \<and> Message.accepted_proposal_id m' = Message.accepted_proposal_id m"
  using assms by (cases e) (auto simp add: outgoing_def copies_keys split: if_splits)

lemma receive_message_ids:
  assumes m: "0 \<le> Message.proposal_id m"
      "\<forall>a. Message.accepted_proposal_id m = Some a \<longrightarrow> 0 \<le> a"
    and nd: "- 1 \<le> PaxosNode.accepted_proposal_id nd" "0 \<le> PaxosNode.proposal_id nd"
  shows "- 1 \<le> PaxosNode.accepted_proposal_id (fst (receive_message N nd m))
    \<and> 0 \<le> PaxosNode.proposal_id (fst (receive_message N nd m))
    \<and> (\<forall>e \<in> set (snd (receive_message N nd m)). \<forall>x ex. e = Send x \<or> e = Broadcast x ex \<longrightarrow>
           0 \<le> Message.proposal_id x \<and> (\<forall>a. Message.accepted_proposal_id x = Some a \<longrightarrow> 0 \<le> a))"
proof (cases "msg_type m")
  case PREPARE
  with assms show ?thesis
    by (simp add: receive_message_def ReceiveProposeSendPromise_def mk_Message_def)
next
  case PROMISE
  show ?thesis
  proof (cases rule: promise_step_cases [OF PROMISE, of N nd, case_names ignore count quorum])
    case ignore
    with nd show ?thesis by simp
  next
    case count
    with nd show ?thesis by (simp add: note_promise_def Let_def split: option.splits)
  next
    case (quorum u)
    with nd show ?thesis by (simp add: note_promise_def Let_def mk_Message_def split: option.splits)
  qed
next
  case ACCEPT
  with assms show ?thesis
    by (simp add: receive_message_def ReceiveAcceptSendAccepted_def mk_Message_def)
next
  case ACCEPTED
  with assms show ?thesis
    by (simp add: receive_message_def handle_accepted_other)
qed

lemma ids_from_clock_update:
  assumes inv: "ids_from_clock net"
    and ths: "set ths \<subseteq> insert (map Call (concat (map (outgoing net) effs)) @ rest)
                 (set (threads net))"
    and rest: "\<forall>m. Call m \<in> set rest \<longrightarrow> (\<exists>todo \<in> set (threads net). Call m \<in> set todo)"
    and nd': "- 1 \<le> PaxosNode.accepted_proposal_id nd'" "0 \<le> PaxosNode.proposal_id nd'"
    and effs: "\<forall>e \<in> set effs. \<forall>x ex. e = Send x \<or> e = Broadcast x ex \<longrightarrow>
           0 \<le> Message.proposal_id x \<and> (\<forall>a. Message.accepted_proposal_id x = Some a \<longrightarrow> 0 \<le> a)"
  shows "ids_from_clock (net\<lparr>nodes := AList.update r nd' (nodes net), threads := ths\<rparr>)"
proof -
  have new: "0 \<le> Message.proposal_id m'
      \<and> (\<forall>a. Message.accepted_proposal_id m' = Some a \<longrightarrow> 0 \<le> a)"
    if "m' \<in> set (concat (map (outgoing net) effs))" for m'
  proof -
    from that obtain e where e: "e \<in> set effs" "m' \<in> set (outgoing net e)" by auto
    from outgoing_ids [OF e(2)] obtain x ex where
      "e = Send x \<or> e = Broadcast x ex"
      "Message.proposal_id m' = Message.proposal_id x"
      "Message.accepted_proposal_id m' = Message.accepted_proposal_id x"
      by blast
    with effs e(1) show ?thesis by force
  qed
  have old: "0 \<le> Message.proposal_id m'
      \<and> (\<forall>a. Message.accepted_proposal_id m' = Some a \<longrightarrow> 0 \<le> a)"
    if "todo \<in> set (threads net)" "Call m' \<in> set todo" for m' todo
    using that inv unfolding ids_from_clock_def by blast
  have call: "0 \<le> Message.proposal_id m'
      \<and> (\<forall>a. Message.accepted_proposal_id m' = Some a \<longrightarrow> 0 \<le> a)"
    if "todo \<in> set ths" "Call m' \<in> set todo" for m' todo
  proof (cases "todo \<in> set (threads net)")
    case True
    then show ?thesis using that(2) by (rule old)
  next
    case False
    with that(1) ths have "todo = map Call (concat (map (outgoing net) effs)) @ rest"
      by blast
    with that(2) have "m' \<in> set (concat (map (outgoing net) effs)) \<or> Call m' \<in> set rest"
      by auto
    then show ?thesis
    proof
      assume "m' \<in> set (concat (map (outgoing net) effs))"
      then show ?thesis by (rule new)
    next
      assume "Call m' \<in> set rest"
      with rest obtain todo' where "todo' \<in> set (threads net)" "Call m' \<in> set todo'"
        by blast
      then show ?thesis by (rule old)
    qed
  qed
  have node: "- 1 \<le> PaxosNode.accepted_proposal_id (snd p) \<and> 0 \<le> PaxosNode.proposal_id (snd p)"
    if "p \<in> set (AList.update r nd' (nodes net))" for p
  proof -
    from that set_update_subset [of r nd' "nodes net"]
    have "p = (r, nd') \<or> p \<in> set (nodes net)" by blast
    with nd' inv show ?thesis unfolding ids_from_clock_def by auto
  qed
  from call node show ?thesis
    unfolding ids_from_clock_def by simp
qed

lemma ids_from_clock_resume:
  assumes inv: "ids_from_clock net"
  shows "ids_from_clock (resume net t)"
proof (cases rule: resume_cases [of net t])
  case idle
  with inv show ?thesis by simp
next
  case (drop rest)
  have "set ((threads net)[t := rest]) \<subseteq> insert rest (set (threads net))"
    by (rule set_update_subset_insert)
  moreover from drop(1) have "threads net ! t \<in> set (threads net)" by simp
  ultimately have "\<forall>todo \<in> set ((threads net)[t := rest]). \<forall>m. Call m \<in> set todo \<longrightarrow>
      (\<exists>todo' \<in> set (threads net). Call m \<in> set todo')"
    using drop(2) by blast
  with inv show ?thesis
    unfolding drop(3) ids_from_clock_def by simp blast
next
  case (handle m rest nd nd' effs c)
  from handle(1) have at: "threads net ! t \<in> set (threads net)" by simp
  with handle(2) inv have m: "0 \<le> Message.proposal_id m"
    "\<forall>a. Message.accepted_proposal_id m = Some a \<longrightarrow> 0 \<le> a"
    unfolding ids_from_clock_def by auto
  from handle(3) have "(receiver_id m, nd) \<in> set (nodes net)" by (rule map_of_SomeD)
  with inv have nd: "- 1 \<le> PaxosNode.accepted_proposal_id nd" "0 \<le> PaxosNode.proposal_id nd"
    unfolding ids_from_clock_def by force+
  note step = receive_message_ids [OF m nd, of "length (nodes net)"]
  note frame = until_sends_frame [OF handle(4)]
  show ?thesis
    unfolding handle(5)
  proof (rule ids_from_clock_update [OF inv,
        where effs = effs and rest = "(if c then [Clear (receiver_id m)] else []) @ rest"])
    show "set ((threads net)[t := map Call (concat (map (outgoing net) effs))
              @ (if c then [Clear (receiver_id m)] else []) @ rest])
        \<subseteq> insert (map Call (concat (map (outgoing net) effs))
              @ (if c then [Clear (receiver_id m)] else []) @ rest) (set (threads net))"
      by (rule set_update_subset_insert)
    show "\<forall>m'. Call m' \<in> set ((if c then [Clear (receiver_id m)] else []) @ rest) \<longrightarrow>
        (\<exists>todo \<in> set (threads net). Call m' \<in> set todo)"
    proof (intro allI impI)
      fix m'
      assume "Call m' \<in> set ((if c then [Clear (receiver_id m)] else []) @ rest)"
      then have "Call m' \<in> set rest" by (simp split: if_splits)
      with handle(2) have "Call m' \<in> set (threads net ! t)" by simp
      with at show "\<exists>todo \<in> set (threads net). Call m' \<in> set todo" by (rule bexI [rotated])
    qed
    show "- 1 \<le> PaxosNode.accepted_proposal_id nd'"
      using step frame(3) by simp
    show "0 \<le> PaxosNode.proposal_id nd'"
      using step frame(2) by simp
    show "\<forall>e \<in> set effs. \<forall>x ex. e = Send x \<or> e = Broadcast x ex \<longrightarrow>
           0 \<le> Message.proposal_id x \<and> (\<forall>a. Message.accepted_proposal_id x = Some a \<longrightarrow> 0 \<le> a)"
      using step unfolding frame(4) by blast
  qed
next
  case (clear nid rest nd)
  from clear(1) have at: "threads net ! t \<in> set (threads net)" by simp
  from clear(3) have "(nid, nd) \<in> set (nodes net)" by (rule map_of_SomeD)
  with inv have nd: "- 1 \<le> PaxosNode.accepted_proposal_id nd" "0 \<le> PaxosNode.proposal_id nd"
    unfolding ids_from_clock_def by force+
  show ?thesis
    unfolding clear(4)
  proof (rule ids_from_clock_update [OF inv, where effs = "[]" and rest = rest])
    show "set ((threads net)[t := rest])
        \<subseteq> insert (map Call (concat (map (outgoing net) [])) @ rest) (set (threads net))"
      using set_update_subset_insert [of "threads net" t rest] by simp
    show "\<forall>m'. Call m' \<in> set rest \<longrightarrow> (\<exists>todo \<in> set (threads net). Call m' \<in> set todo)"
    proof (intro allI impI)
      fix m'
      assume "Call m' \<in> set rest"
      with clear(2) have "Call m' \<in> set (threads net ! t)" by simp
      with at show "\<exists>todo \<in> set (threads net). Call m' \<in> set todo" by (rule bexI [rotated])
    qed
    show "- 1 \<le> PaxosNode.accepted_proposal_id (nd\<lparr>promises_received := {||}\<rparr>)"
      using nd by simp
    show "0 \<le> PaxosNode.proposal_id (nd\<lparr>promises_received := {||}\<rparr>)"
      using nd by simp
    show "\<forall>e \<in> set ([] :: 'a effect list). \<forall>x ex. e = Send x \<or> e = Broadcast x ex \<longrightarrow>
           0 \<le> Message.proposal_id x \<and> (\<forall>a. Message.accepted_proposal_id x = Some a \<longrightarrow> 0 \<le> a)"
      by simp
  qed
qed

lemma ids_from_clock_start_proposal:
  assumes inv: "ids_from_clock net" and now: "0 \<le> now"
  shows "ids_from_clock (start_proposal net nid now v)"
proof (cases "map_of (nodes net) nid")
  case None
  with inv show ?thesis by (simp add: start_proposal_def)
next
  case (Some nd)
  from Some have "(nid, nd) \<in> set (nodes net)" by (rule map_of_SomeD)
  with inv have nd: "- 1 \<le> PaxosNode.accepted_proposal_id nd"
    unfolding ids_from_clock_def by force
  show ?thesis
    unfolding start_proposal_eq [OF Some]
  proof (rule ids_from_clock_update [OF inv,
        where effs = "snd (propose nd now v)" and rest = "[]"])
    show "set (threads net @ [map Call (concat (map (outgoing net) (snd (propose nd now v))))])
        \<subseteq> insert (map Call (concat (map (outgoing net) (snd (propose nd now v)))) @ [])
             (set (threads net))"
      by auto
    show "\<forall>m'. Call m' \<in> set [] \<longrightarrow> (\<exists>todo \<in> set (threads net). Call m' \<in> set todo)"
      by simp
    show "- 1 \<le> PaxosNode.accepted_proposal_id (fst (propose nd now v))"
      using nd by (simp add: propose_def)
    show "0 \<le> PaxosNode.proposal_id (fst (propose nd now v))"
      using now by (simp add: propose_def)
    show "\<forall>e \<in> set (snd (propose nd now v)).
        \<forall>x ex. e = Send x \<or> e = Broadcast x ex \<longrightarrow>
           0 \<le> Message.proposal_id x \<and> (\<forall>a. Message.accepted_proposal_id x = Some a \<longrightarrow> 0 \<le> a)"
      using now by (simp add: propose_def mk_Message_def)
  qed
qed

lemma fresh_fold:
  assumes "threads net = []" and "\<forall>p \<in> set (nodes net). snd p = init_node (fst p)"
  shows "threads (fold (\<lambda>nid net. create_node net nid) ids net) = []
     \<and> (\<forall>p \<in> set (nodes (fold (\<lambda>nid net. create_node net nid) ids net)).
           snd p = init_node (fst p))"
  using assms
proof (induction ids arbitrary: net)
  case Nil
  then show ?case by simp
next
  case (Cons nid ids)
  have "threads (create_node net nid) = []"
    using Cons.prems(1) by (simp add: create_node_def add_node_def)
  moreover have "\<forall>p \<in> set (nodes (create_node net nid)). snd p = init_node (fst p)"
    using Cons.prems(2) set_update_subset [of nid "init_node nid" "nodes net"]
    by (auto simp add: create_node_def add_node_def init_node_def)
  ultimately show ?case using Cons.IH [of "create_node net nid"] by simp
qed

lemma ids_from_clock_initial: "ids_from_clock (initial_network ids)"
proof -
  let ?net = "initial_network ids :: 'a Network"
  have "threads ?net = []" "\<forall>p \<in> set (nodes ?net). snd p = init_node (fst p)"
    using fresh_fold [of "empty_network :: 'a Network" ids]
    by (simp_all add: initial_network_def empty_network_def)
  then show ?thesis by (simp add: ids_from_clock_def init_node_def)
qed

lemma run_ids_from_clock:
  "\<forall>e \<in> set evs. clock_nonneg e \<Longrightarrow> ids_from_clock (run ids evs)"
proof (induction evs rule: rev_induct)
  case Nil
  show ?case by (simp add: run_def ids_from_clock_initial)
next
  case (snoc e evs)
  then have inv: "ids_from_clock (run ids evs)" and e: "clock_nonneg e" by simp_all
  show ?case
  proof (cases e)
    case (Propose nid now v)
    with e have "0 \<le> now" by (simp add: clock_nonneg_def)
    with inv Propose show ?thesis by (simp add: run_snoc ids_from_clock_start_proposal)
  next
    case (Resume t)
    with inv show ?thesis by (simp add: run_snoc ids_from_clock_resume)
  qed
qed

section \<open>Redelivery of an ACCEPTED message\<close>

lemma already_counted_after: "already_counted (handle_accepted n nd m) m"
proof -
  have "sender_id m |\<in>| counted_senders nd m"
    by (simp add: counted_senders_def Let_def)
  moreover have "PaxosNode.accepted_proposal_id nd = Message.proposal_id m
      \<and> PaxosNode.accepted_value nd = value m \<longrightarrow> node_id nd |\<in>| counted_senders nd m"
    by (simp add: counted_senders_def Let_def)
  ultimately show ?thesis
    unfolding already_counted_def
    by (simp add: handle_accepted_counts handle_accepted_other)
qed

lemma already_counted_noop:
  assumes "already_counted nd m"
  shows "accept_counts (handle_accepted n nd m) = accept_counts nd"
proof -
  from assms obtain d S where d: "accept_counts nd (Message.proposal_id m) = Some d"
    and S: "d (value m) = Some S" and s: "sender_id m |\<in>| S"
    and own: "PaxosNode.accepted_proposal_id nd = Message.proposal_id m
             \<and> PaxosNode.accepted_value nd = value m \<longrightarrow> node_id nd |\<in>| S"
    unfolding already_counted_def by blast
  have "counted_senders nd m = S"
    using d S s own by (auto simp add: counted_senders_def Let_def finsert_absorb)
  then have "accept_counts (handle_accepted n nd m)
      = (accept_counts nd)(Message.proposal_id m \<mapsto> d(value m \<mapsto> S))"
    by (simp add: handle_accepted_counts d)
  also have "d(value m \<mapsto> S) = d" using S by (rule map_upd_triv)
  also have "(accept_counts nd)(Message.proposal_id m \<mapsto> d) = accept_counts nd"
    using d by (rule map_upd_triv)
  finally show ?thesis .
qed

lemma already_counted_kept:
  assumes c: "already_counted nd m" and t: "msg_type m' \<noteq> ACCEPT"
  shows "already_counted (fst (receive_message n nd m')) m"
proof (cases "msg_type m'")
  case PREPARE
  with c show ?thesis
    by (simp add: already_counted_def receive_message_def ReceiveProposeSendPromise_def)
next
  case PROMISE
  show ?thesis
  proof (cases rule: promise_step_cases [OF PROMISE, of n nd, case_names ignore count quorum])
    case ignore
    with c show ?thesis by simp
  next
    case count
    with c show ?thesis
      by (simp add: already_counted_def note_promise_def Let_def split: option.splits)
  next
    case (quorum u)
    with c show ?thesis
      by (simp add: already_counted_def note_promise_def Let_def split: option.splits)
  qed
next
  case ACCEPT
  with t show ?thesis by simp
next
  case ACCEPTED
  from c obtain d S where d: "accept_counts nd (Message.proposal_id m) = Some d"
    and S: "d (value m) = Some S" and s: "sender_id m |\<in>| S"
    and own: "PaxosNode.accepted_proposal_id nd = Message.proposal_id m
             \<and> PaxosNode.accepted_value nd = value m \<longrightarrow> node_id nd |\<in>| S"
    unfolding already_counted_def by blast
  have st: "fst (receive_message n nd m') = handle_accepted n nd m'"
    using ACCEPTED by (simp add: receive_message_def)
  show ?thesis
  proof (cases "Message.proposal_id m' = Message.proposal_id m \<and> value m' = value m")
    case True
    have sub: "S |\<subseteq>| counted_senders nd m'"
      using True d S by (auto simp add: counted_senders_def Let_def)
    have "accept_counts (handle_accepted n nd m') (Message.proposal_id m)
        = Some (d(value m \<mapsto> counted_senders nd m'))"
      using True d by (simp add: handle_accepted_counts)
    with sub s own show ?thesis
      unfolding st already_counted_def
      by (auto simp add: handle_accepted_other)
  next
    case False
    have "\<exists>d'. accept_counts (handle_accepted n nd m') (Message.proposal_id m) = Some d'
        \<and> d' (value m) = Some S"
      using False d S by (auto simp add: handle_accepted_counts)
    with s own show ?thesis
      unfolding st already_counted_def
      by (auto simp add: handle_accepted_other)
  qed
qed

lemma already_counted_run:
  assumes "already_counted nd m" and "\<forall>m' \<in> set ms. msg_type m' \<noteq> ACCEPT"
  shows "already_counted (fst (receive_all n nd ms)) m"
  using assms
proof (induction ms arbitrary: nd)
  case Nil
  then show ?case by simp
next
  case (Cons m' ms)
  from Cons.prems have "already_counted (fst (receive_message n nd m')) m"
    by (intro already_counted_kept) simp_all
  with Cons.prems(2) have "already_counted (fst (receive_all n (fst (receive_message n nd m')) ms)) m"
    by (intro Cons.IH) simp_all
  then show ?case by (simp only: receive_all_Cons fst_conv)
qed

text \<open>
  Claim C9 (idempotent learning). Handing the same ACCEPTED message (same proposal id, sender
  and value) to one node a second time leaves \<^verbatim>\<open>accept_counts\<close> as it was before that second
  delivery: directly after the first delivery, where indeed the whole node state stays as the
  first delivery left it, and also after any messages other than ACCEPT handled in between.
\<close>

theorem accepted_twice_is_noop:
  assumes "msg_type m = ACCEPTED" and "\<forall>m' \<in> set ms. msg_type m' \<noteq> ACCEPT"
  shows "accept_counts (fst (receive_message n (fst (receive_message n nd m)) m))
           = accept_counts (fst (receive_message n nd m))
         \<and> fst (receive_message n (fst (receive_message n nd m)) m)
           = fst (receive_message n nd m)
         \<and> accept_counts (fst (receive_message n
               (fst (receive_all n (fst (receive_message n nd m)) ms)) m))
           = accept_counts (fst (receive_all n (fst (receive_message n nd m)) ms))"
proof -
  from assms(1) have st: "fst (receive_message n nd m) = handle_accepted n nd m"
    by (simp add: receive_message_def)
  have "already_counted (fst (receive_all n (handle_accepted n nd m) ms)) m"
    using already_counted_after assms(2) by (rule already_counted_run)
  then have "accept_counts (handle_accepted n (fst (receive_all n (handle_accepted n nd m) ms)) m)
      = accept_counts (fst (receive_all n (handle_accepted n nd m) ms))"
    by (rule already_counted_noop)
  with assms(1) show ?thesis
    by (simp add: receive_message_def handle_accepted_twice)
qed

theorem accepted_twice_is_noop_witness:
  "msg_type (mk_Message ACCEPTED 4 ''b'' ''a'' (Some ''x'') None None) = ACCEPTED
   \<and> accept_counts (fst (receive_message 3
        (fst (receive_message 3 (init_node ''a'')
           (mk_Message ACCEPTED 4 ''b'' ''a'' (Some ''x'') None None)))
        (mk_Message ACCEPTED 4 ''b'' ''a'' (Some ''x'') None None))) 4
     = Some ([Some ''x'' \<mapsto> {|''b''|}])"
proof -
  have t: "msg_type (mk_Message ACCEPTED 4 ''b'' ''a'' (Some ''x'') None None) = ACCEPTED"
    by (simp add: mk_Message_def)
  have e: "\<forall>m' \<in> set ([] :: string Message list). msg_type m' \<noteq> ACCEPT" by simp
  show ?thesis
    using accepted_twice_is_noop [OF t e, of 3 "init_node ''a''"]
    by (simp add: receive_message_def handle_accepted_counts counted_senders_def
        init_node_def mk_Message_def)
qed

end
